theory Spec2Isabelle
  imports Main "HOL-Library.Sublist"
begin

section \<open>Python string primitives used by the scripts\<close>

text \<open>
  Strings are lists of code points below 256. The functions of this section follow the
  behaviour of the Python \<^verbatim>\<open>str\<close> methods the scripts call, on that range.
\<close>

definition py_isspace :: "char \<Rightarrow> bool" where
  "py_isspace c \<longleftrightarrow>
     c \<in> set [CHR 0x09, CHR 0x0A, CHR 0x0B, CHR 0x0C, CHR 0x0D, CHR 0x1C, CHR 0x1D,
              CHR 0x1E, CHR 0x1F, CHR 0x20, CHR 0x85, CHR 0xA0]"

definition py_strip :: "string \<Rightarrow> string" where
  "py_strip s = rev (dropWhile py_isspace (rev (dropWhile py_isspace s)))"

definition py_rstrip :: "string \<Rightarrow> string" where
  "py_rstrip s = rev (dropWhile py_isspace (rev s))"

text \<open>\<^verbatim>\<open>sub in s\<close> on strings: \<open>sub\<close> occurs in \<open>s\<close> as a contiguous run.\<close>

fun py_in :: "string \<Rightarrow> string \<Rightarrow> bool" where
  "py_in sub [] = (sub = [])"
| "py_in sub (c # cs) = (prefix sub (c # cs) \<or> py_in sub cs)"

text \<open>\<^verbatim>\<open>s.split(sep)\<close> for a separator of one character.\<close>

fun py_split :: "char \<Rightarrow> string \<Rightarrow> string list" where
  "py_split sep [] = [[]]"
| "py_split sep (c # cs) =
     (if c = sep then [] # py_split sep cs
      else (case py_split sep cs of [] \<Rightarrow> [[c]] | p # ps \<Rightarrow> (c # p) # ps))"

text \<open>\<^verbatim>\<open>s.replace(ch, '')\<close> for one character \<open>ch\<close>.\<close>

definition py_delete :: "char \<Rightarrow> string \<Rightarrow> string" where
  "py_delete ch s = filter (\<lambda>c. c \<noteq> ch) s"

definition py_linebreak :: "char \<Rightarrow> bool" where
  "py_linebreak c \<longleftrightarrow>
     c \<in> set [CHR 0x0A, CHR 0x0B, CHR 0x0C, CHR 0x0D, CHR 0x1C, CHR 0x1D, CHR 0x1E, CHR 0x85]"

text \<open>\<^verbatim>\<open>s.splitlines()\<close>; the first argument is the line read so far, reversed.\<close>

fun splitlines_from :: "string \<Rightarrow> string \<Rightarrow> string list" where
  "splitlines_from cur [] = (if cur = [] then [] else [rev cur])"
| "splitlines_from cur [c] = (if py_linebreak c then [rev cur] else [rev (c # cur)])"
| "splitlines_from cur (c # d # cs) =
     (if c = CHR 0x0D \<and> d = CHR 0x0A then rev cur # splitlines_from [] cs
      else if py_linebreak c then rev cur # splitlines_from [] (d # cs)
      else splitlines_from (c # cur) (d # cs))"

definition py_splitlines :: "string \<Rightarrow> string list" where
  "py_splitlines s = splitlines_from [] s"

definition py_lower_char :: "char \<Rightarrow> char" where
  "py_lower_char c =
     (let n = (of_char c :: nat)
      in if (65 \<le> n \<and> n \<le> 90) \<or> (192 \<le> n \<and> n \<le> 222 \<and> n \<noteq> 215)
         then char_of (n + 32) else c)"

definition py_lower :: "string \<Rightarrow> string" where
  "py_lower s = map py_lower_char s"

definition py_isdigit_char :: "char \<Rightarrow> bool" where
  "py_isdigit_char c =
     (let n = (of_char c :: nat)
      in (48 \<le> n \<and> n \<le> 57) \<or> n = 178 \<or> n = 179 \<or> n = 185)"

definition py_isdigit :: "string \<Rightarrow> bool" where
  "py_isdigit s \<longleftrightarrow> s \<noteq> [] \<and> list_all py_isdigit_char s"

text \<open>Decimal rendering of a natural number, as \<^verbatim>\<open>str.format\<close> prints an int.\<close>

definition digit_char :: "nat \<Rightarrow> char" where
  "digit_char d = char_of (48 + d)"

fun py_str_nat :: "nat \<Rightarrow> string" where
  "py_str_nat n = (if n < 10 then [digit_char n] else py_str_nat (n div 10) @ [digit_char (n mod 10)])"

declare py_str_nat.simps [simp del]

text \<open>
  A \<^verbatim>\<open>dict\<close> keeps its keys in the order of their first insertion; assigning to a key
  that is present replaces its value in place.
\<close>

fun dict_set :: "('k \<times> 'v) list \<Rightarrow> 'k \<Rightarrow> 'v \<Rightarrow> ('k \<times> 'v) list" where
  "dict_set [] k v = [(k, v)]"
| "dict_set ((k', v') # d) k v = (if k' = k then (k, v) # d else (k', v') # dict_set d k v)"

definition dict_keys :: "('k \<times> 'v) list \<Rightarrow> 'k list" where
  "dict_keys d = map fst d"

section \<open>The host, the trace of a run, and programs\<close>

text \<open>
  The host is the external collaborator: \<open>execute\<close> runs a shell command in a world and
  gives its output and the next world; \<open>pause\<close> is what the world does during a sleep.
  A run records what it did to the host as a list of events.
\<close>

record 'w host =
  execute :: "'w \<Rightarrow> string \<Rightarrow> string \<times> 'w"
  pause :: "nat \<Rightarrow> 'w \<Rightarrow> 'w"

datatype event = Cmd string string | Sleep nat

datatype error = IndexError | TypeError | KeyError | SystemExit nat

type_synonym ('w, 'a) prog = "'w \<Rightarrow> (error + 'a) \<times> 'w \<times> event list"

definition ret :: "'a \<Rightarrow> ('w, 'a) prog" where
  "ret x = (\<lambda>w. (Inr x, w, []))"

definition raise :: "error \<Rightarrow> ('w, 'a) prog" where
  "raise e = (\<lambda>w. (Inl e, w, []))"

definition bnd :: "('w, 'a) prog \<Rightarrow> ('a \<Rightarrow> ('w, 'b) prog) \<Rightarrow> ('w, 'b) prog" where
  "bnd m k = (\<lambda>w. case m w of
       (Inl e, w1, es) \<Rightarrow> (Inl e, w1, es)
     | (Inr x, w1, es) \<Rightarrow> (case k x w1 of (r, w2, es') \<Rightarrow> (r, w2, es @ es')))"

text \<open>A value or an exception computed without the host.\<close>

definition lift :: "error + 'a \<Rightarrow> ('w, 'a) prog" where
  "lift r = (\<lambda>w. (r, w, []))"

definition result_of :: "('w, 'a) prog \<Rightarrow> 'w \<Rightarrow> error + 'a" where
  "result_of p w = fst (p w)"

definition trace_of :: "('w, 'a) prog \<Rightarrow> 'w \<Rightarrow> event list" where
  "trace_of p w = snd (snd (p w))"

definition sleep :: "'w host \<Rightarrow> nat \<Rightarrow> ('w, unit) prog" where
  "sleep h n = (\<lambda>w. (Inr (), pause h n w, [Sleep n]))"

section \<open>esxi_onbox_upgrade_v4.py\<close>

definition UPGRADE_FILENAME :: string where
  "UPGRADE_FILENAME = ''VMware-ESXi-8.0U3-24022510-depot.zip''"

definition UPGRADE_PROFILE :: string where
  "UPGRADE_PROFILE = ''ESXi-8.0U3-24022510-standard''"

definition MAINTENANCE_MODE_TIMEOUT :: nat where
  "MAINTENANCE_MODE_TIMEOUT = 45"

definition SHUTDOWN_TIMEOUT_PER_VM :: nat where
  "SHUTDOWN_TIMEOUT_PER_VM = 10"

text \<open>The command lines the script builds.\<close>

definition get_guest_cmd :: "string \<Rightarrow> string" where
  "get_guest_cmd vmid = ''vim-cmd vmsvc/get.guest '' @ vmid"

definition power_off_cmd :: "string \<Rightarrow> string" where
  "power_off_cmd vmid = ''vim-cmd vmsvc/power.off '' @ vmid"

definition power_shutdown_cmd :: "string \<Rightarrow> string" where
  "power_shutdown_cmd vmid = ''vim-cmd vmsvc/power.shutdown '' @ vmid"

definition get_summary_cmd :: "string \<Rightarrow> string" where
  "get_summary_cmd vm = ''vim-cmd vmsvc/get.summary '' @ vm"

definition power_on_cmd :: "string \<Rightarrow> string" where
  "power_on_cmd vm = ''vim-cmd vmsvc/power.on '' @ vm"

definition getallvms_cmd :: string where
  "getallvms_cmd = ''vim-cmd vmsvc/getallvms | tail -n+2 | awk '' @ [CHR 0x27] @ ''{print $1}'' @ [CHR 0x27]"

definition mm_get_cmd :: string where
  "mm_get_cmd = ''esxcli system maintenanceMode get''"

definition mm_enable_cmd :: string where
  "mm_enable_cmd = ''esxcli system maintenanceMode set --enable true''"

definition mm_disable_cmd :: string where
  "mm_disable_cmd = ''esxcli system maintenanceMode set --enable false''"

definition upgrade_cmd :: "string \<Rightarrow> string" where
  "upgrade_cmd full_path_to_zip =
     ''esxcli software profile update -p '' @ UPGRADE_PROFILE @ '' -d '' @ [CHR 0x27]
       @ full_path_to_zip @ [CHR 0x27]"

definition reboot_cmd :: string where
  "reboot_cmd = ''reboot now''"

definition pwd_cmd :: string where
  "pwd_cmd = ''pwd''"

definition ls_cmd :: "string \<Rightarrow> string" where
  "ls_cmd remotepath = ''ls -l '' @ [CHR 0x27] @ remotepath @ [CHR 0x27]"

definition enable_ssh_cmd :: string where
  "enable_ssh_cmd = ''vim-cmd hostsvc/enable_ssh''"

definition enable_autostart_cmd :: string where
  "enable_autostart_cmd = ''vim-cmd hostsvc/autostartmanager/enable_autostart 1''"

definition autostart_cmd :: "string \<Rightarrow> nat \<Rightarrow> string" where
  "autostart_cmd vmid auto_vm_power_on_sequence =
     ''vim-cmd hostsvc/autostartmanager/update_autostartentry '' @ vmid @ '' ''
       @ [CHR 0x22] @ ''PowerOn'' @ [CHR 0x22] @ '' '' @ [CHR 0x22] @ ''15'' @ [CHR 0x22] @ '' ''
       @ [CHR 0x22] @ py_str_nat auto_vm_power_on_sequence @ [CHR 0x22] @ '' ''
       @ [CHR 0x22] @ ''systemDefault'' @ [CHR 0x22] @ '' ''
       @ [CHR 0x22] @ ''systemDefault'' @ [CHR 0x22] @ '' ''
       @ [CHR 0x22] @ ''systemDefault'' @ [CHR 0x22]"

definition sendcommand_onbox :: "'w host \<Rightarrow> string \<Rightarrow> ('w, string) prog" where
  "sendcommand_onbox h command =
     (\<lambda>w. case execute h w command of (out, w1) \<Rightarrow> (Inr out, w1, [Cmd command out]))"

text \<open>
  The field of a line \<^verbatim>\<open>key = "value",\<close>:
  \<^verbatim>\<open>line.split("=")[1].replace('"', '').replace(',', '').strip()\<close>;
  the index raises when the line has no \<^verbatim>\<open>=\<close>.
\<close>

definition line_field :: "string \<Rightarrow> error + string" where
  "line_field line =
     (case py_split (CHR ''='') line of
        _ # f # _ \<Rightarrow> Inr (py_strip (py_delete (CHR '','') (py_delete (CHR 0x22) f)))
      | _ \<Rightarrow> Inl IndexError)"

fun tools_status_of :: "string list \<Rightarrow> error + string option" where
  "tools_status_of [] = Inr None"
| "tools_status_of (line # rest) =
     (if py_in ''toolsStatus'' line
      then (case line_field line of Inl e \<Rightarrow> Inl e | Inr s \<Rightarrow> Inr (Some s))
      else tools_status_of rest)"

definition read_tools :: "string \<Rightarrow> error + string option" where
  "read_tools output = tools_status_of (py_splitlines output)"

definition check_vmware_tools_status :: "'w host \<Rightarrow> string \<Rightarrow> ('w, string option) prog" where
  "check_vmware_tools_status h vmid =
     bnd (sendcommand_onbox h (get_guest_cmd vmid)) (\<lambda>output. lift (read_tools output))"

definition poweroffvm_onbox :: "'w host \<Rightarrow> string \<Rightarrow> ('w, string) prog" where
  "poweroffvm_onbox h vmid = sendcommand_onbox h (power_off_cmd vmid)"

fun power_state_of :: "string list \<Rightarrow> error + string" where
  "power_state_of [] = Inr ''unknown''"
| "power_state_of (line # rest) =
     (if py_in ''powerState'' line then line_field line else power_state_of rest)"

definition read_power :: "string \<Rightarrow> error + string" where
  "read_power resp = power_state_of (py_split (CHR 0x0A) resp)"

definition getvmpowerstate_onbox :: "'w host \<Rightarrow> string \<Rightarrow> ('w, string) prog" where
  "getvmpowerstate_onbox h vm =
     bnd (sendcommand_onbox h (get_summary_cmd vm)) (\<lambda>resp. lift (read_power resp))"

text \<open>The polling loop of \<^verbatim>\<open>graceful_shutdown_onbox\<close>, with the iterations left.\<close>

fun wait_poweroff :: "'w host \<Rightarrow> string \<Rightarrow> nat \<Rightarrow> ('w, bool) prog" where
  "wait_poweroff h vmid 0 = ret False"
| "wait_poweroff h vmid (Suc n) =
     bnd (getvmpowerstate_onbox h vmid)
       (\<lambda>ps. if ps \<noteq> ''poweredOn'' then ret True
             else bnd (sleep h 1) (\<lambda>_. wait_poweroff h vmid n))"

definition graceful_shutdown_onbox :: "'w host \<Rightarrow> string \<Rightarrow> ('w, bool) prog" where
  "graceful_shutdown_onbox h vmid =
     bnd (sendcommand_onbox h (power_shutdown_cmd vmid))
       (\<lambda>resp. wait_poweroff h vmid SHUTDOWN_TIMEOUT_PER_VM)"

text \<open>The test \<^verbatim>\<open>status and status.lower() in ("toolsok", "toolsold")\<close>.\<close>

definition tools_usable :: "string option \<Rightarrow> bool" where
  "tools_usable status =
     (case status of None \<Rightarrow> False
      | Some s \<Rightarrow> s \<noteq> [] \<and> (py_lower s = ''toolsok'' \<or> py_lower s = ''toolsold''))"

definition shutdownvm_onbox :: "'w host \<Rightarrow> string \<Rightarrow> ('w, unit) prog" where
  "shutdownvm_onbox h vmid =
     bnd (check_vmware_tools_status h vmid)
       (\<lambda>status. if tools_usable status
          then bnd (graceful_shutdown_onbox h vmid)
                 (\<lambda>ok. if \<not> ok then bnd (poweroffvm_onbox h vmid) (\<lambda>_. ret ()) else ret ())
          else bnd (poweroffvm_onbox h vmid) (\<lambda>_. ret ()))"

definition add_vm :: "(string \<times> string) list \<Rightarrow> string \<Rightarrow> (string \<times> string) list" where
  "add_vm vms line = (let vmid = py_strip line in if py_isdigit vmid then dict_set vms vmid vmid else vms)"

definition parse_vms :: "string \<Rightarrow> (string \<times> string) list" where
  "parse_vms resp =
     (if py_strip resp = [] then []
      else foldl add_vm [] (py_split (CHR 0x0A) (py_strip resp)))"

definition getvms_onbox :: "'w host \<Rightarrow> ('w, (string \<times> string) list) prog" where
  "getvms_onbox h = bnd (sendcommand_onbox h getallvms_cmd) (\<lambda>resp. ret (parse_vms resp))"

text \<open>The two polling loops of \<^verbatim>\<open>maintenancemode_onbox\<close>, for the state waited for.\<close>

fun wait_mm :: "'w host \<Rightarrow> string \<Rightarrow> nat \<Rightarrow> ('w, bool) prog" where
  "wait_mm h wanted 0 = ret False"
| "wait_mm h wanted (Suc n) =
     bnd (sendcommand_onbox h mm_get_cmd)
       (\<lambda>out. if py_lower (py_strip out) = wanted then ret True
              else bnd (sleep h 1) (\<lambda>_. wait_mm h wanted n))"

definition maintenancemode_onbox :: "'w host \<Rightarrow> bool \<Rightarrow> ('w, bool) prog" where
  "maintenancemode_onbox h enable =
     (if enable
      then bnd (sendcommand_onbox h mm_enable_cmd)
             (\<lambda>_. wait_mm h ''enabled'' MAINTENANCE_MODE_TIMEOUT)
      else bnd (sendcommand_onbox h mm_disable_cmd)
             (\<lambda>_. wait_mm h ''disabled'' 5))"

definition upgradehost_onbox :: "'w host \<Rightarrow> string \<Rightarrow> ('w, string) prog" where
  "upgradehost_onbox h full_path_to_zip = sendcommand_onbox h (upgrade_cmd full_path_to_zip)"

definition reboothost_onbox :: "'w host \<Rightarrow> ('w, int) prog" where
  "reboothost_onbox h = bnd (sendcommand_onbox h reboot_cmd) (\<lambda>_. ret 0)"

definition poweron_onbox :: "'w host \<Rightarrow> string \<Rightarrow> ('w, unit) prog" where
  "poweron_onbox h vm = bnd (sendcommand_onbox h (power_on_cmd vm)) (\<lambda>_. ret ())"

text \<open>Step 5 of \<^verbatim>\<open>main\<close>: the loop over the VMs, with the next auto-start priority.\<close>

fun quiesce_vms :: "'w host \<Rightarrow> string list \<Rightarrow> nat \<Rightarrow> ('w, unit) prog" where
  "quiesce_vms h [] auto_vm_power_on_sequence = ret ()"
| "quiesce_vms h (vmid # rest) auto_vm_power_on_sequence =
     bnd (getvmpowerstate_onbox h vmid)
       (\<lambda>power_state. if power_state = ''poweredOn''
          then bnd (sendcommand_onbox h (autostart_cmd vmid auto_vm_power_on_sequence))
                 (\<lambda>_. bnd (shutdownvm_onbox h vmid)
                   (\<lambda>_. quiesce_vms h rest (auto_vm_power_on_sequence + 1)))
          else quiesce_vms h rest auto_vm_power_on_sequence)"

text \<open>The loop of both rollback branches of \<^verbatim>\<open>main\<close>.\<close>

fun repower_vms :: "'w host \<Rightarrow> string list \<Rightarrow> ('w, unit) prog" where
  "repower_vms h [] = ret ()"
| "repower_vms h (vmid # rest) =
     bnd (getvmpowerstate_onbox h vmid)
       (\<lambda>power_state. if power_state = ''poweredOff''
          then bnd (poweron_onbox h vmid) (\<lambda>_. repower_vms h rest)
          else repower_vms h rest)"

text \<open>The test of step 8 on the output of the upgrade command.\<close>

definition upgrade_succeeded :: "string \<Rightarrow> bool" where
  "upgrade_succeeded upgrade_resp \<longleftrightarrow>
     py_in ''The update completed successfully'' upgrade_resp
     \<and> py_in ''Reboot Required: true'' upgrade_resp"

definition main :: "'w host \<Rightarrow> ('w, unit) prog" where
  "main h =
     bnd (sendcommand_onbox h pwd_cmd) (\<lambda>out.
     let remotepath = py_strip out in
     bnd (sendcommand_onbox h (ls_cmd remotepath)) (\<lambda>directory_contents.
     if \<not> py_in UPGRADE_FILENAME directory_contents then raise (SystemExit 1)
     else
     let full_path_to_zip = remotepath @ ''/'' @ UPGRADE_FILENAME in
     bnd (sendcommand_onbox h enable_ssh_cmd) (\<lambda>_.
     bnd (sendcommand_onbox h enable_autostart_cmd) (\<lambda>_.
     bnd (getvms_onbox h) (\<lambda>vms.
     bnd (sleep h 1) (\<lambda>_.
     bnd (if vms = [] then ret () else quiesce_vms h (dict_keys vms) 1) (\<lambda>_.
     bnd (maintenancemode_onbox h True) (\<lambda>mm_ok.
     if \<not> mm_ok
     then bnd (repower_vms h (dict_keys vms)) (\<lambda>_. raise (SystemExit 2))
     else
     bnd (upgradehost_onbox h full_path_to_zip) (\<lambda>upgrade_resp.
     if upgrade_succeeded upgrade_resp
     then bnd (maintenancemode_onbox h False) (\<lambda>_.
          bnd (reboothost_onbox h) (\<lambda>_. ret ()))
     else bnd (maintenancemode_onbox h False) (\<lambda>_.
          bnd (repower_vms h (dict_keys vms)) (\<lambda>_. raise (SystemExit 3))))))))))))"

text \<open>
  The exit status of the process: 0 when \<^verbatim>\<open>main\<close> returns, the argument of
  \<^verbatim>\<open>sys.exit\<close>, and 1 when an exception is not caught.
\<close>

definition exit_status :: "error + unit \<Rightarrow> nat" where
  "exit_status r = (case r of Inr _ \<Rightarrow> 0 | Inl (SystemExit n) \<Rightarrow> n | Inl _ \<Rightarrow> 1)"

section \<open>upgrade-script.py\<close>

text \<open>
  The older script. Its functions have the names of the functions of the newer one, so
  they are prefixed here; \<^verbatim>\<open>getvms\<close>, which the script never calls, is left out.
\<close>

text \<open>\<^verbatim>\<open>s.strip(ch)\<close> and \<^verbatim>\<open>s.rstrip(ch)\<close> for one character.\<close>

definition py_strip_char :: "char \<Rightarrow> string \<Rightarrow> string" where
  "py_strip_char ch s = rev (dropWhile (\<lambda>c. c = ch) (rev (dropWhile (\<lambda>c. c = ch) s)))"

definition py_rstrip_char :: "char \<Rightarrow> string \<Rightarrow> string" where
  "py_rstrip_char ch s = rev (dropWhile (\<lambda>c. c = ch) (rev s))"

text \<open>
  Whether \<^verbatim>\<open>int(s)\<close> returns. The conversion takes white space around an optional sign
  and groups of decimal digits with single underscores between them. Its white space is not
  that of \<^verbatim>\<open>strip\<close>: the separators U+001C to U+001F are refused, U+0085 and U+00A0 are taken.
  A string of more than 4300 digits is refused (the default limit of the interpreter).
\<close>

definition py_int_space :: "char \<Rightarrow> bool" where
  "py_int_space c =
     (let n = (of_char c :: nat) in (9 \<le> n \<and> n \<le> 13) \<or> n = 32 \<or> n = 133 \<or> n = 160)"

definition py_int_strip :: "string \<Rightarrow> string" where
  "py_int_strip s = rev (dropWhile py_int_space (rev (dropWhile py_int_space s)))"

definition py_isdecimal_char :: "char \<Rightarrow> bool" where
  "py_isdecimal_char c = (let n = (of_char c :: nat) in 48 \<le> n \<and> n \<le> 57)"

fun digit_groups :: "string \<Rightarrow> bool" where
  "digit_groups [] = False"
| "digit_groups [c] = py_isdecimal_char c"
| "digit_groups (c # d # cs) =
     (py_isdecimal_char c \<and> (if d = CHR ''_'' then digit_groups cs else digit_groups (d # cs)))"

definition max_str_digits :: nat where
  "max_str_digits = 4300"

definition py_int_ok :: "string \<Rightarrow> bool" where
  "py_int_ok s =
     (case py_int_strip s of
        [] \<Rightarrow> False
      | c # cs \<Rightarrow>
          (if c = CHR ''+'' \<or> c = CHR ''-'' then digit_groups cs else digit_groups (c # cs))
          \<and> length (filter py_isdecimal_char (c # cs)) \<le> max_str_digits)"

text \<open>\<^verbatim>\<open>d[k]\<close> on a dictionary.\<close>

fun dict_get :: "('k \<times> 'v) list \<Rightarrow> 'k \<Rightarrow> error + 'v" where
  "dict_get [] k = Inl KeyError"
| "dict_get ((k', v) # d) k = (if k' = k then Inr v else dict_get d k)"

definition us_file_name :: string where
  "us_file_name = ''VMware-ESXi-7.0U2c-18426014-depot.zip''"

definition us_getallvms_cmd :: string where
  "us_getallvms_cmd = ''vim-cmd vmsvc/getallvms | tail -n+2 | awk '' @ [CHR 0x27] @ ''{print $1''
     @ [CHR 0x22] @ '':'' @ [CHR 0x22] @ ''$2}'' @ [CHR 0x27]"

text \<open>\<^verbatim>\<open>i.split(':')[0]\<close>.\<close>

definition first_field :: "string \<Rightarrow> string" where
  "first_field i = (case py_split (CHR '':'') i of [] \<Rightarrow> [] | x # _ \<Rightarrow> x)"

definition us_add_vm :: "(string \<times> string) list \<Rightarrow> string \<Rightarrow> (string \<times> string) list" where
  "us_add_vm vms i =
     (let host = first_field i; vmid = first_field i
      in if py_int_ok vmid then dict_set vms host vmid else vms)"

text \<open>The result is the empty string (\<open>None\<close> here) or a dictionary.\<close>

definition us_getvms_onbox :: "'w host \<Rightarrow> ('w, (string \<times> string) list option) prog" where
  "us_getvms_onbox h =
     bnd (sendcommand_onbox h us_getallvms_cmd)
       (\<lambda>resp. if resp = [] then ret None
               else ret (Some (foldl us_add_vm [] (py_split (CHR 0x0A) resp))))"

definition us_poweroffvm_onbox :: "'w host \<Rightarrow> string \<Rightarrow> ('w, string) prog" where
  "us_poweroffvm_onbox h vm = sendcommand_onbox h (''vim-cmd vmsvc/power.off '' @ vm)"

text \<open>The function returns nothing (\<open>None\<close>) when no line has the key.\<close>

fun us_power_state_of :: "string list \<Rightarrow> error + string option" where
  "us_power_state_of [] = Inr None"
| "us_power_state_of (i # rest) =
     (if py_in ''powerState'' i
      then (case line_field i of Inl e \<Rightarrow> Inl e | Inr s \<Rightarrow> Inr (Some s))
      else us_power_state_of rest)"

definition us_getvmpowerstate_onbox :: "'w host \<Rightarrow> string \<Rightarrow> ('w, string option) prog" where
  "us_getvmpowerstate_onbox h vm =
     bnd (sendcommand_onbox h (''vim-cmd vmsvc/get.summary '' @ vm))
       (\<lambda>resp. lift (us_power_state_of (py_split (CHR 0x0A) resp)))"

definition us_upgradehost_onbox :: "'w host \<Rightarrow> string \<Rightarrow> ('w, unit) prog" where
  "us_upgradehost_onbox h path =
     bnd (sendcommand_onbox h
            (''esxcli software profile update -p ESXi-7.0U2c-18426014-standard -d ''
               @ [CHR 0x27] @ path @ [CHR 0x27]))
       (\<lambda>_. ret ())"

definition us_maintenancemode_onbox :: "'w host \<Rightarrow> bool \<Rightarrow> ('w, unit) prog" where
  "us_maintenancemode_onbox h state =
     (if state
      then bnd (sendcommand_onbox h ''esxcli system maintenanceMode set --enable true'') (\<lambda>_. ret ())
      else bnd (sendcommand_onbox h ''esxcli system maintenanceMode set --enable false'') (\<lambda>_. ret ()))"

definition us_reboothost_onbox :: "'w host \<Rightarrow> ('w, int) prog" where
  "us_reboothost_onbox h = bnd (sendcommand_onbox h ''reboot now'') (\<lambda>_. ret 0)"

text \<open>The first loop of the script: the power state of every VM, in a dictionary.\<close>

fun us_read_states ::
  "'w host \<Rightarrow> (string \<times> string) list \<Rightarrow> string list \<Rightarrow> (string \<times> string option) list
     \<Rightarrow> ('w, (string \<times> string option) list) prog" where
  "us_read_states h vms [] powerstate = ret powerstate"
| "us_read_states h vms (i # rest) powerstate =
     bnd (lift (dict_get vms i)) (\<lambda>vmid.
     bnd (us_getvmpowerstate_onbox h vmid) (\<lambda>state.
     us_read_states h vms rest (dict_set powerstate vmid state)))"

text \<open>The loop that prints the states: \<^verbatim>\<open>powerstate[i] + "\n"\<close> fails on \<open>None\<close>.\<close>

fun us_print_states :: "(string \<times> string option) list \<Rightarrow> error + unit" where
  "us_print_states [] = Inr ()"
| "us_print_states ((i, state) # rest) =
     (case state of None \<Rightarrow> Inl TypeError | Some _ \<Rightarrow> us_print_states rest)"

text \<open>The second loop: registration and power-off of the VMs that were on.\<close>

fun us_poweroff_vms ::
  "'w host \<Rightarrow> (string \<times> string) list \<Rightarrow> (string \<times> string option) list \<Rightarrow> nat \<Rightarrow> ('w, unit) prog" where
  "us_poweroff_vms h vms [] auto_vm_power_on_sequence = ret ()"
| "us_poweroff_vms h vms ((i, state) # rest) auto_vm_power_on_sequence =
     (if state = Some ''poweredOn''
      then bnd (lift (dict_get vms i)) (\<lambda>vmid.
           bnd (sendcommand_onbox h (autostart_cmd vmid auto_vm_power_on_sequence)) (\<lambda>_.
           bnd (us_poweroffvm_onbox h i) (\<lambda>_.
           us_poweroff_vms h vms rest (auto_vm_power_on_sequence + 1))))
      else us_poweroff_vms h vms rest auto_vm_power_on_sequence)"

definition us_main :: "'w host \<Rightarrow> ('w, unit) prog" where
  "us_main h =
     bnd (sendcommand_onbox h ''pwd'') (\<lambda>out.
     let remotepath = [CHR 0x27] @ py_rstrip out @ ''/'' @ [CHR 0x27] in
     bnd (sendcommand_onbox h (''ls -l '' @ remotepath)) (\<lambda>directory_contents.
     if \<not> py_in us_file_name directory_contents then raise (SystemExit 0)
     else
     let remotepath = py_strip_char (CHR 0x27) (py_rstrip_char (CHR 0x27) remotepath) @ us_file_name in
     bnd (sendcommand_onbox h ''vim-cmd hostsvc/enable_ssh'') (\<lambda>_.
     bnd (sendcommand_onbox h ''vim-cmd hostsvc/autostartmanager/enable_autostart 1'') (\<lambda>_.
     bnd (us_getvms_onbox h) (\<lambda>vms.
     bnd (sleep h 1) (\<lambda>_.
     bnd (case vms of None \<Rightarrow> ret []
          | Some d \<Rightarrow> bnd (us_read_states h d (dict_keys d) [])
                       (\<lambda>powerstate. bnd (lift (us_print_states powerstate)) (\<lambda>_. ret powerstate)))
       (\<lambda>powerstate.
     bnd (sleep h 1) (\<lambda>_.
     bnd (case vms of None \<Rightarrow> ret () | Some d \<Rightarrow> us_poweroff_vms h d powerstate 1) (\<lambda>_.
     bnd (sleep h 1) (\<lambda>_.
     bnd (us_maintenancemode_onbox h True) (\<lambda>_.
     bnd (sleep h 1) (\<lambda>_.
     bnd (us_upgradehost_onbox h remotepath) (\<lambda>_.
     bnd (us_maintenancemode_onbox h False) (\<lambda>_.
     bnd (us_reboothost_onbox h) (\<lambda>_. ret ())))))))))))))))"

section \<open>Reading a trace\<close>

text \<open>The kind of a command line, by the words it starts with.\<close>

datatype command_kind =
  KPwd | KLs | KEnableSsh | KEnableAutostart | KGetAllVms | KSummary | KAutostart | KGuest
  | KShutdown | KPowerOff | KPowerOn | KMMEnable | KMMDisable | KMMGet | KUpgrade | KReboot
  | KOther

definition kind_of :: "string \<Rightarrow> command_kind" where
  "kind_of c =
     (if c = pwd_cmd then KPwd
      else if prefix ''ls -l '' c then KLs
      else if c = enable_ssh_cmd then KEnableSsh
      else if c = enable_autostart_cmd then KEnableAutostart
      else if c = getallvms_cmd then KGetAllVms
      else if prefix ''vim-cmd vmsvc/get.summary '' c then KSummary
      else if prefix ''vim-cmd hostsvc/autostartmanager/update_autostartentry '' c then KAutostart
      else if prefix ''vim-cmd vmsvc/get.guest '' c then KGuest
      else if prefix ''vim-cmd vmsvc/power.shutdown '' c then KShutdown
      else if prefix ''vim-cmd vmsvc/power.off '' c then KPowerOff
      else if prefix ''vim-cmd vmsvc/power.on '' c then KPowerOn
      else if c = mm_enable_cmd then KMMEnable
      else if c = mm_disable_cmd then KMMDisable
      else if c = mm_get_cmd then KMMGet
      else if prefix ''esxcli software profile update '' c then KUpgrade
      else if c = reboot_cmd then KReboot
      else KOther)"

text \<open>The kinds of the commands of a trace, in order.\<close>

fun kinds :: "event list \<Rightarrow> command_kind list" where
  "kinds [] = []"
| "kinds (Cmd c out # es) = kind_of c # kinds es"
| "kinds (Sleep n # es) = kinds es"

text \<open>The command lines of a trace, in order.\<close>

fun commands :: "event list \<Rightarrow> string list" where
  "commands [] = []"
| "commands (Cmd c out # es) = c # commands es"
| "commands (Sleep n # es) = commands es"

text \<open>The power states read for a VM in a trace, one for each query, in order.\<close>

fun observations :: "event list \<Rightarrow> string \<Rightarrow> (error + string) list" where
  "observations [] vm = []"
| "observations (Cmd c out # es) vm =
     (if c = get_summary_cmd vm then read_power out # observations es vm else observations es vm)"
| "observations (Sleep n # es) vm = observations es vm"

definition first_state :: "event list \<Rightarrow> string \<Rightarrow> (error + string) option" where
  "first_state es vm = (case observations es vm of [] \<Rightarrow> None | x # _ \<Rightarrow> Some x)"

definition latest_state :: "event list \<Rightarrow> string \<Rightarrow> (error + string) option" where
  "latest_state es vm = (case rev (observations es vm) of [] \<Rightarrow> None | x # _ \<Rightarrow> Some x)"

definition poweron_issued :: "event list \<Rightarrow> string \<Rightarrow> bool" where
  "poweron_issued es vm \<longleftrightarrow> power_on_cmd vm \<in> set (commands es)"

text \<open>One round of the polling loop of the graceful shutdown: the query and the sleep.\<close>

definition poll_round :: "string \<Rightarrow> string \<Rightarrow> event list" where
  "poll_round v out = [Cmd (get_summary_cmd v) out, Sleep 1]"

text \<open>The states read by the maintenance-mode polls of a trace, in order.\<close>

fun mm_reads :: "event list \<Rightarrow> string list" where
  "mm_reads [] = []"
| "mm_reads (Cmd c out # es) =
     (if c = mm_get_cmd then py_lower (py_strip out) # mm_reads es else mm_reads es)"
| "mm_reads (Sleep n # es) = mm_reads es"

text \<open>The VMs found by the enumeration commands of a trace, in the order of discovery.\<close>

fun discovered :: "event list \<Rightarrow> string list" where
  "discovered [] = []"
| "discovered (Cmd c out # es) =
     (if c = getallvms_cmd then dict_keys (parse_vms out) @ discovered es else discovered es)"
| "discovered (Sleep n # es) = discovered es"

text \<open>What \<^verbatim>\<open>main\<close> does before the loop over the VMs, for the outputs it gets.\<close>

definition prologue :: "string \<Rightarrow> string \<Rightarrow> string \<Rightarrow> string \<Rightarrow> string \<Rightarrow> event list" where
  "prologue o1 o2 o3 o4 o5 =
     [Cmd pwd_cmd o1, Cmd (ls_cmd (py_strip o1)) o2, Cmd enable_ssh_cmd o3,
      Cmd enable_autostart_cmd o4, Cmd getallvms_cmd o5, Sleep 1]"

section \<open>A scripted host\<close>

text \<open>
  The host whose world is the list of outputs it still has to give: each command gets the
  next one, whatever the command is, and the empty output once the list is used up.
\<close>

definition scripted :: "string list host" where
  "scripted = \<lparr> execute = (\<lambda>w c. case w of [] \<Rightarrow> ([], []) | out # rest \<Rightarrow> (out, rest)),
                pause = (\<lambda>n w. w) \<rparr>"

text \<open>The command lines of the loop before the upgrade that name a VM.\<close>

definition about :: "string \<Rightarrow> string \<Rightarrow> bool" where
  "about v c \<longleftrightarrow> c = get_summary_cmd v \<or> c = get_guest_cmd v \<or> c = power_shutdown_cmd v
     \<or> c = power_off_cmd v \<or> (\<exists>k. c = autostart_cmd v k)"

text \<open>The auto-start registrations of a trace, in order.\<close>

definition autostarts :: "event list \<Rightarrow> string list" where
  "autostarts es = filter (\<lambda>c. kind_of c = KAutostart) (commands es)"

text \<open>The VMs of a list that a trace first read as powered on: the restore set.\<close>

definition restore_set :: "event list \<Rightarrow> string list \<Rightarrow> string list" where
  "restore_set es vms = filter (\<lambda>v. first_state es v = Some (Inr ''poweredOn'')) vms"

text \<open>
  The rollback of a trace: the commands at its end that are power-state queries and power-on
  commands, after the last event of another kind.
\<close>

fun rollback_event :: "event \<Rightarrow> bool" where
  "rollback_event (Cmd c out) = (kind_of c = KSummary \<or> kind_of c = KPowerOn)"
| "rollback_event (Sleep n) = False"

definition rollback_part :: "event list \<Rightarrow> event list" where
  "rollback_part es = rev (takeWhile rollback_event (rev es))"

text \<open>The power-state queries of a trace, in order.\<close>

definition state_queries :: "event list \<Rightarrow> string list" where
  "state_queries es = filter (\<lambda>c. kind_of c = KSummary) (commands es)"

text \<open>The registrations that give the VMs of a list the priorities from \<open>k\<close> on.\<close>

definition registrations :: "string list \<Rightarrow> nat \<Rightarrow> string list" where
  "registrations vms k = map (\<lambda>i. autostart_cmd (vms ! i) (k + i)) [0..<length vms]"

text \<open>Outputs of the kind the host gives, for the runs evaluated below.\<close>

definition summary_output :: "string \<Rightarrow> string" where
  "summary_output state =
     ''(vim.vm.Summary) {\<newline>   runtime = (vim.vm.RuntimeInfo) {\<newline>      powerState = ''
       @ [CHR 0x22] @ state @ [CHR 0x22] @ '',\<newline>   },\<newline>}\<newline>''"

definition guest_output :: "string \<Rightarrow> string" where
  "guest_output status =
     ''(vim.vm.GuestInfo) {\<newline>   toolsStatus = '' @ [CHR 0x22] @ status @ [CHR 0x22]
       @ '',\<newline>   toolsVersion = '' @ [CHR 0x22] @ ''12352'' @ [CHR 0x22] @ '',\<newline>}\<newline>''"

definition listing_output :: string where
  "listing_output =
     ''total 614400\<newline>-rw-r--r--    1 root     root     629145600 Jan  5 10:12 ''
       @ UPGRADE_FILENAME @ ''\<newline>-rwxr-xr-x    1 root     root          9012 Jan  5 10:12 esxi_onbox_upgrade_v4.py\<newline>''"

definition upgrade_ok_output :: string where
  "upgrade_ok_output =
     ''Update Result\<newline>   Message: The update completed successfully, but the system needs to be rebooted for the changes to be effective.\<newline>   Reboot Required: true\<newline>''"

definition upgrade_noreboot_output :: string where
  "upgrade_noreboot_output =
     ''Update Result\<newline>   Message: The update completed successfully.\<newline>   Reboot Required: false\<newline>''"

text \<open>A workload with usable tools that stays on through the ten polls.\<close>

definition stuck_guest :: "string list" where
  "stuck_guest = guest_output ''toolsOk'' # [] # replicate 10 (summary_output ''poweredOn'') @ [[]]"

text \<open>A workload without tools.\<close>

definition bare_guest :: "string list" where
  "bare_guest = [guest_output ''toolsNotInstalled'', []]"

text \<open>
  Scripts of whole runs. The outputs before the loop over the VMs: the working directory,
  its listing with the package, two empty outputs, and the VM ids.
\<close>

definition first_outputs :: "string \<Rightarrow> string list" where
  "first_outputs ids = [''/vmfs/volumes/datastore1/upgrade\<newline>'', listing_output, [], [], ids]"

text \<open>The quiesce of a VM that is on and has no tools: state, registration, tools, power-off.\<close>

definition forced_off :: "string list" where
  "forced_off = [summary_output ''poweredOn'', [], guest_output ''toolsNotInstalled'', []]"

text \<open>Maintenance mode that is never entered: the enable command and 45 polls.\<close>

definition never_enabled :: "string list" where
  "never_enabled = [] # replicate 45 ''Disabled\<newline>''"

text \<open>Maintenance mode entered at the third poll.\<close>

definition enabled_soon :: "string list" where
  "enabled_soon = [[], ''Disabled\<newline>'', ''Disabled\<newline>'', ''Enabled\<newline>'']"

text \<open>Maintenance mode that is not left within the five polls: the disable command and 5 polls.\<close>

definition never_disabled :: "string list" where
  "never_disabled = [] # replicate 5 ''Enabled\<newline>''"

text \<open>
  One VM, on at first and forced off; maintenance mode is never entered; the rollback reads
  the VM as off and powers it on.
\<close>

definition run_mm_timeout :: "string list" where
  "run_mm_timeout = first_outputs ''1\<newline>'' @ forced_off @ never_enabled @ [summary_output ''poweredOff'', []]"

text \<open>The same, but the rollback gets no power state for the VM.\<close>

definition run_mm_timeout_blind :: "string list" where
  "run_mm_timeout_blind = first_outputs ''1\<newline>'' @ forced_off @ never_enabled @ [[]]"

text \<open>
  Two VMs: the first is off at first, the second is on and forced off; maintenance mode is
  never entered; the rollback reads the first as off and gets no power state for the second.
\<close>

definition run_two_vms :: "string list" where
  "run_two_vms = first_outputs ''1\<newline>2\<newline>'' @ [summary_output ''poweredOff''] @ forced_off @ never_enabled
     @ [summary_output ''poweredOff'', [], []]"

text \<open>One VM forced off, maintenance mode entered, the upgrade asks for a reboot, the exit
  from maintenance mode is never seen.\<close>

definition run_success :: "string list" where
  "run_success = first_outputs ''1\<newline>'' @ forced_off @ enabled_soon @ [upgrade_ok_output] @ never_disabled @ [[]]"

text \<open>The same with an upgrade output without the reboot marker; the rollback powers the VM on.\<close>

definition run_no_reboot :: "string list" where
  "run_no_reboot = first_outputs ''1\<newline>'' @ forced_off @ enabled_soon @ [upgrade_noreboot_output]
     @ never_disabled @ [summary_output ''poweredOff'', []]"

text \<open>The same, but the rollback gets no power state for the VM.\<close>

definition run_no_reboot_blind :: "string list" where
  "run_no_reboot_blind = first_outputs ''1\<newline>'' @ forced_off @ enabled_soon @ [upgrade_noreboot_output]
     @ never_disabled @ [[]]"

text \<open>Three VMs, the first and the third on; the upgrade succeeds.\<close>

definition run_three_vms :: "string list" where
  "run_three_vms = first_outputs ''1\<newline>2\<newline>3\<newline>'' @ forced_off @ [summary_output ''poweredOff''] @ forced_off
     @ enabled_soon @ [upgrade_ok_output, [], ''Disabled\<newline>'', []]"

text \<open>A working directory without the upgrade package.\<close>

definition run_no_package :: "string list" where
  "run_no_package =
     [''/vmfs/volumes/datastore1/upgrade\<newline>'',
      ''total 16\<newline>-rwxr-xr-x    1 root     root          9012 Jan  5 10:12 upgrade-script.py\<newline>'']"

text \<open>A VM with usable tools for which the host gives no power state after the shutdown request.\<close>

definition lost_guest :: "string list" where
  "lost_guest = [guest_output ''toolsOk'', [], []]"

text \<open>The traces of these runs.\<close>

definition first_events :: "string \<Rightarrow> event list" where
  "first_events ids = prologue ''/vmfs/volumes/datastore1/upgrade\<newline>'' listing_output [] [] ids"

definition forced_off_events :: "string \<Rightarrow> nat \<Rightarrow> event list" where
  "forced_off_events v k =
     [Cmd (get_summary_cmd v) (summary_output ''poweredOn''), Cmd (autostart_cmd v k) [],
      Cmd (get_guest_cmd v) (guest_output ''toolsNotInstalled''), Cmd (power_off_cmd v) []]"

definition polls :: "nat \<Rightarrow> string \<Rightarrow> event list" where
  "polls n out = concat (replicate n [Cmd mm_get_cmd out, Sleep 1])"

definition never_enabled_events :: "event list" where
  "never_enabled_events = Cmd mm_enable_cmd [] # polls 45 ''Disabled\<newline>''"

definition enabled_soon_events :: "event list" where
  "enabled_soon_events =
     Cmd mm_enable_cmd [] # polls 2 ''Disabled\<newline>'' @ [Cmd mm_get_cmd ''Enabled\<newline>'']"

definition never_disabled_events :: "event list" where
  "never_disabled_events = Cmd mm_disable_cmd [] # polls 5 ''Enabled\<newline>''"

definition upgrade_event :: "string \<Rightarrow> event" where
  "upgrade_event out =
     Cmd (upgrade_cmd (''/vmfs/volumes/datastore1/upgrade/'' @ UPGRADE_FILENAME)) out"

definition trace_mm_timeout :: "event list" where
  "trace_mm_timeout = first_events ''1\<newline>'' @ forced_off_events ''1'' 1 @ never_enabled_events
     @ [Cmd (get_summary_cmd ''1'') (summary_output ''poweredOff''), Cmd (power_on_cmd ''1'') []]"

definition trace_mm_timeout_blind :: "event list" where
  "trace_mm_timeout_blind = first_events ''1\<newline>'' @ forced_off_events ''1'' 1 @ never_enabled_events
     @ [Cmd (get_summary_cmd ''1'') []]"

definition trace_two_vms :: "event list" where
  "trace_two_vms = first_events ''1\<newline>2\<newline>''
     @ [Cmd (get_summary_cmd ''1'') (summary_output ''poweredOff'')] @ forced_off_events ''2'' 1
     @ never_enabled_events
     @ [Cmd (get_summary_cmd ''1'') (summary_output ''poweredOff''), Cmd (power_on_cmd ''1'') [],
        Cmd (get_summary_cmd ''2'') []]"

definition trace_success :: "event list" where
  "trace_success = first_events ''1\<newline>'' @ forced_off_events ''1'' 1 @ enabled_soon_events
     @ [upgrade_event upgrade_ok_output] @ never_disabled_events @ [Cmd reboot_cmd []]"

definition trace_no_reboot :: "event list" where
  "trace_no_reboot = first_events ''1\<newline>'' @ forced_off_events ''1'' 1 @ enabled_soon_events
     @ [upgrade_event upgrade_noreboot_output] @ never_disabled_events
     @ [Cmd (get_summary_cmd ''1'') (summary_output ''poweredOff''), Cmd (power_on_cmd ''1'') []]"

definition trace_no_reboot_blind :: "event list" where
  "trace_no_reboot_blind = first_events ''1\<newline>'' @ forced_off_events ''1'' 1 @ enabled_soon_events
     @ [upgrade_event upgrade_noreboot_output] @ never_disabled_events
     @ [Cmd (get_summary_cmd ''1'') []]"

definition trace_three_vms :: "event list" where
  "trace_three_vms = first_events ''1\<newline>2\<newline>3\<newline>'' @ forced_off_events ''1'' 1
     @ [Cmd (get_summary_cmd ''2'') (summary_output ''poweredOff'')] @ forced_off_events ''3'' 2
     @ enabled_soon_events
     @ [upgrade_event upgrade_ok_output, Cmd mm_disable_cmd [], Cmd mm_get_cmd ''Disabled\<newline>'',
        Cmd reboot_cmd []]"

section \<open>Basic facts\<close>

text \<open>Lower case by the bits of the character, for evaluation.\<close>

lemma py_lower_char_code [code]:
  "py_lower_char (Char b0 b1 b2 b3 b4 b5 b6 b7) =
     (if b6 \<and> \<not> b5
         \<and> (if b7 then \<not> (b4 \<and> b2 \<and> b1 \<and> b0)
             else (b0 \<or> b1 \<or> b2 \<or> b3 \<or> b4) \<and> \<not> (b4 \<and> b3 \<and> (b2 \<or> (b1 \<and> b0))))
      then Char b0 b1 b2 b3 b4 True b6 b7 else Char b0 b1 b2 b3 b4 b5 b6 b7)"
  by (cases b0; cases b1; cases b2; cases b3; cases b4; cases b5; cases b6; cases b7;
      simp add: py_lower_char_def char_of_def bit_0)


lemma sendcommand_run:
  "sendcommand_onbox h c w = (Inr (fst (execute h w c)), snd (execute h w c), [Cmd c (fst (execute h w c))])"
  by (simp add: sendcommand_onbox_def split: prod.splits)

lemma bndE:
  assumes "bnd m k w = (r, w', evs)"
  obtains (fail) e where "m w = (Inl e, w', evs)" "r = Inl e"
  | (ok) x w1 es es' where "m w = (Inr x, w1, es)" "k x w1 = (r, w', es')" "evs = es @ es'"
  using assms by (auto simp: bnd_def split: prod.splits sum.splits)

lemma kind_pwd [simp]: "kind_of pwd_cmd = KPwd"
  by (simp add: kind_of_def)
lemma kind_ls [simp]: "kind_of (ls_cmd p) = KLs"
  by (simp add: kind_of_def ls_cmd_def pwd_cmd_def)
lemma kind_ssh [simp]: "kind_of enable_ssh_cmd = KEnableSsh"
  by (simp add: kind_of_def enable_ssh_cmd_def pwd_cmd_def)
lemma kind_enable_autostart [simp]: "kind_of enable_autostart_cmd = KEnableAutostart"
  by (simp add: kind_of_def enable_ssh_cmd_def enable_autostart_cmd_def pwd_cmd_def)
lemma kind_getallvms [simp]: "kind_of getallvms_cmd = KGetAllVms"
  by (simp add: kind_of_def enable_ssh_cmd_def enable_autostart_cmd_def pwd_cmd_def getallvms_cmd_def)
lemma kind_summary [simp]: "kind_of (get_summary_cmd v) = KSummary"
  by (simp add: kind_of_def enable_ssh_cmd_def enable_autostart_cmd_def pwd_cmd_def getallvms_cmd_def get_summary_cmd_def)
lemma kind_autostart [simp]: "kind_of (autostart_cmd v k) = KAutostart"
  by (simp add: kind_of_def enable_ssh_cmd_def enable_autostart_cmd_def pwd_cmd_def getallvms_cmd_def autostart_cmd_def)
lemma kind_guest [simp]: "kind_of (get_guest_cmd v) = KGuest"
  by (simp add: kind_of_def enable_ssh_cmd_def enable_autostart_cmd_def pwd_cmd_def getallvms_cmd_def get_guest_cmd_def)
lemma kind_shutdown [simp]: "kind_of (power_shutdown_cmd v) = KShutdown"
  by (simp add: kind_of_def enable_ssh_cmd_def enable_autostart_cmd_def pwd_cmd_def getallvms_cmd_def power_shutdown_cmd_def)
lemma kind_poweroff [simp]: "kind_of (power_off_cmd v) = KPowerOff"
  by (simp add: kind_of_def enable_ssh_cmd_def enable_autostart_cmd_def pwd_cmd_def getallvms_cmd_def power_off_cmd_def)
lemma kind_poweron [simp]: "kind_of (power_on_cmd v) = KPowerOn"
  by (simp add: kind_of_def enable_ssh_cmd_def enable_autostart_cmd_def pwd_cmd_def getallvms_cmd_def power_on_cmd_def)
lemma kind_mm_enable [simp]: "kind_of mm_enable_cmd = KMMEnable"
  by (simp add: kind_of_def enable_ssh_cmd_def enable_autostart_cmd_def pwd_cmd_def getallvms_cmd_def mm_enable_cmd_def)
lemma kind_mm_disable [simp]: "kind_of mm_disable_cmd = KMMDisable"
  by (simp add: kind_of_def enable_ssh_cmd_def enable_autostart_cmd_def pwd_cmd_def getallvms_cmd_def mm_enable_cmd_def mm_disable_cmd_def)
lemma kind_mm_get [simp]: "kind_of mm_get_cmd = KMMGet"
  by (simp add: kind_of_def enable_ssh_cmd_def enable_autostart_cmd_def pwd_cmd_def getallvms_cmd_def mm_enable_cmd_def mm_disable_cmd_def mm_get_cmd_def)
lemma kind_upgrade [simp]: "kind_of (upgrade_cmd p) = KUpgrade"
  by (simp add: kind_of_def enable_ssh_cmd_def enable_autostart_cmd_def pwd_cmd_def getallvms_cmd_def mm_enable_cmd_def mm_disable_cmd_def mm_get_cmd_def upgrade_cmd_def)
lemma kind_reboot [simp]: "kind_of reboot_cmd = KReboot"
  by (simp add: kind_of_def enable_ssh_cmd_def enable_autostart_cmd_def pwd_cmd_def getallvms_cmd_def mm_enable_cmd_def mm_disable_cmd_def mm_get_cmd_def reboot_cmd_def)

lemma summary_inj [simp]: "get_summary_cmd v = get_summary_cmd v' \<longleftrightarrow> v = v'"
  by (simp add: get_summary_cmd_def)
lemma poweron_inj [simp]: "power_on_cmd v = power_on_cmd v' \<longleftrightarrow> v = v'"
  by (simp add: power_on_cmd_def)

lemma trace_of_eq: "p w = (r, w', evs) \<Longrightarrow> trace_of p w = evs"
  by (simp add: trace_of_def)
lemma result_of_eq: "p w = (r, w', evs) \<Longrightarrow> result_of p w = r"
  by (simp add: result_of_def)
lemma run_eq: "p w = (result_of p w, fst (snd (p w)), trace_of p w)"
  by (simp add: result_of_def trace_of_def)

lemma kinds_append [simp]: "kinds (a @ b) = kinds a @ kinds b"
  by (induction a rule: kinds.induct) auto
lemma commands_append [simp]: "commands (a @ b) = commands a @ commands b"
  by (induction a rule: commands.induct) auto
lemma observations_append [simp]: "observations (a @ b) v = observations a v @ observations b v"
  by (induction a v rule: observations.induct) auto

lemma kinds_commands: "kinds es = map kind_of (commands es)"
  by (induction es rule: kinds.induct) auto

lemma Cmd_in_commands: "Cmd c out \<in> set es \<Longrightarrow> c \<in> set (commands es)"
  by (induction es rule: commands.induct) auto

lemma commands_in_Cmd: "c \<in> set (commands es) \<Longrightarrow> \<exists>out. Cmd c out \<in> set es"
  by (induction es rule: commands.induct) auto

lemma observations_empty: "get_summary_cmd v \<notin> set (commands es) \<Longrightarrow> observations es v = []"
  by (induction es v rule: observations.induct) auto

lemma getvmpowerstate_run:
  "getvmpowerstate_onbox h v w =
     (read_power (fst (execute h w (get_summary_cmd v))), snd (execute h w (get_summary_cmd v)),
      [Cmd (get_summary_cmd v) (fst (execute h w (get_summary_cmd v)))])"
  by (cases "read_power (fst (execute h w (get_summary_cmd v)))")
     (simp_all add: getvmpowerstate_onbox_def bnd_def sendcommand_run lift_def)

lemma check_tools_run:
  "check_vmware_tools_status h v w =
     (read_tools (fst (execute h w (get_guest_cmd v))), snd (execute h w (get_guest_cmd v)),
      [Cmd (get_guest_cmd v) (fst (execute h w (get_guest_cmd v)))])"
  by (cases "read_tools (fst (execute h w (get_guest_cmd v)))")
     (simp_all add: check_vmware_tools_status_def bnd_def sendcommand_run lift_def)

lemma poweroff_run:
  "bnd (poweroffvm_onbox h v) (\<lambda>_. ret ()) w =
     (Inr (), snd (execute h w (power_off_cmd v)),
      [Cmd (power_off_cmd v) (fst (execute h w (power_off_cmd v)))])"
  by (simp add: poweroffvm_onbox_def bnd_def sendcommand_run ret_def)

lemma poweron_run:
  "poweron_onbox h v w =
     (Inr (), snd (execute h w (power_on_cmd v)),
      [Cmd (power_on_cmd v) (fst (execute h w (power_on_cmd v)))])"
  by (simp add: poweron_onbox_def bnd_def sendcommand_run ret_def)

lemma wait_poweroff_shape:
  "wait_poweroff h v n w = (r, w', evs) \<Longrightarrow>
   \<exists>outs fin. evs = concat (map (poll_round v) outs) @ fin
     \<and> (\<forall>out \<in> set outs. read_power out = Inr ''poweredOn'')
     \<and> ((r = Inr False \<and> fin = [] \<and> length outs = n)
        \<or> (\<exists>out. fin = [Cmd (get_summary_cmd v) out] \<and> length outs < n
              \<and> read_power out \<noteq> Inr ''poweredOn''
              \<and> r = (case read_power out of Inl e \<Rightarrow> Inl e | Inr s \<Rightarrow> Inr True)))"
proof (induction n arbitrary: w r w' evs)
  case 0
  then show ?case by (simp add: ret_def)
next
  case (Suc n)
  let ?out = "fst (execute h w (get_summary_cmd v))"
  let ?w1 = "snd (execute h w (get_summary_cmd v))"
  show ?case
  proof (cases "read_power ?out = Inr ''poweredOn''")
    case True
    from Suc.prems True obtain es where
      run: "wait_poweroff h v n (pause h 1 ?w1) = (r, w', es)"
      and evs: "evs = poll_round v ?out @ es"
      by (auto simp: bnd_def getvmpowerstate_run sleep_def poll_round_def split: prod.splits)
    from Suc.IH [OF run] obtain outs fin where
      IH: "es = concat (map (poll_round v) outs) @ fin"
        "\<forall>out \<in> set outs. read_power out = Inr ''poweredOn''"
        "(r = Inr False \<and> fin = [] \<and> length outs = n)
        \<or> (\<exists>out. fin = [Cmd (get_summary_cmd v) out] \<and> length outs < n
              \<and> read_power out \<noteq> Inr ''poweredOn''
              \<and> r = (case read_power out of Inl e \<Rightarrow> Inl e | Inr s \<Rightarrow> Inr True))"
      by blast
    show ?thesis
      apply (rule exI [of _ "?out # outs"], rule exI [of _ fin])
      using IH True evs by auto
  next
    case False
    with Suc.prems have "evs = [Cmd (get_summary_cmd v) ?out]"
      and "r = (case read_power ?out of Inl e \<Rightarrow> Inl e | Inr s \<Rightarrow> Inr True)"
      by (auto simp: bnd_def getvmpowerstate_run ret_def split: sum.splits if_splits)
    with False show ?thesis
      by (intro exI [of _ "[]"] exI [of _ "[Cmd (get_summary_cmd v) ?out]"]) simp
  qed
qed

section \<open>Shutdown and maintenance mode\<close>

lemma mm_reads_append [simp]: "mm_reads (a @ b) = mm_reads a @ mm_reads b"
  by (induction a rule: mm_reads.induct) auto
lemma discovered_append [simp]: "discovered (a @ b) = discovered a @ discovered b"
  by (induction a rule: discovered.induct) auto

lemma mm_reads_none: "KMMGet \<notin> set (kinds es) \<Longrightarrow> mm_reads es = []"
  by (induction es rule: mm_reads.induct) auto

lemma discovered_none: "KGetAllVms \<notin> set (kinds es) \<Longrightarrow> discovered es = []"
  by (induction es rule: discovered.induct) auto

lemma observations_none: "KSummary \<notin> set (kinds es) \<Longrightarrow> observations es v = []"
  by (induction es v rule: observations.induct) auto

lemma commands_kind: "c \<in> set (commands es) \<Longrightarrow> kind_of c \<in> set (kinds es)"
  by (simp add: kinds_commands)

lemma poweron_issued_append [simp]:
  "poweron_issued (a @ b) v \<longleftrightarrow> poweron_issued a v \<or> poweron_issued b v"
  by (auto simp: poweron_issued_def)

lemma poweron_issued_none: "KPowerOn \<notin> set (kinds es) \<Longrightarrow> \<not> poweron_issued es v"
  by (auto simp: poweron_issued_def dest: commands_kind)

text \<open>Where an event of a kind is, when the front of the trace has none of that kind.\<close>

lemma split_after:
  assumes "a @ b = pre @ Cmd c out # post" and "kind_of c \<notin> set (kinds a)"
  shows "\<exists>pre'. pre = a @ pre' \<and> b = pre' @ Cmd c out # post"
proof -
  from assms(1) consider us where "a = pre @ us" "us @ b = Cmd c out # post"
    | us where "a @ us = pre" "b = us @ Cmd c out # post"
    by (auto simp: append_eq_append_conv2)
  then show ?thesis
  proof cases
    case 1
    show ?thesis
    proof (cases us)
      case Nil
      with 1 show ?thesis by simp
    next
      case (Cons u us')
      with 1 have "Cmd c out \<in> set a" by simp
      then have "kind_of c \<in> set (kinds a)"
        by (auto dest: Cmd_in_commands commands_kind)
      with assms(2) show ?thesis by simp
    qed
  next
    case 2
    then show ?thesis by auto
  qed
qed

lemma kinds_poll_rounds: "k \<in> set (kinds (concat (map (poll_round v) outs))) \<Longrightarrow> k = KSummary"
  by (induction outs) (auto simp: poll_round_def)

lemma commands_poll_rounds:
  "c \<in> set (commands (concat (map (poll_round v) outs))) \<Longrightarrow> c = get_summary_cmd v"
  by (induction outs) (auto simp: poll_round_def)

lemma observations_poll_rounds:
  "observations (concat (map (poll_round v) outs)) v = map read_power outs"
  by (induction outs) (auto simp: poll_round_def)

lemma graceful_shape:
  assumes "graceful_shutdown_onbox h v w = (r, w', evs)"
  shows "\<exists>resp outs fin. evs = Cmd (power_shutdown_cmd v) resp # concat (map (poll_round v) outs) @ fin
     \<and> (\<forall>out \<in> set outs. read_power out = Inr ''poweredOn'')
     \<and> ((r = Inr False \<and> fin = [] \<and> length outs = 10)
        \<or> (\<exists>out. fin = [Cmd (get_summary_cmd v) out] \<and> length outs < 10
              \<and> read_power out \<noteq> Inr ''poweredOn''
              \<and> r = (case read_power out of Inl e \<Rightarrow> Inl e | Inr s \<Rightarrow> Inr True)))"
proof -
  let ?resp = "fst (execute h w (power_shutdown_cmd v))"
  from assms obtain es where
    run: "wait_poweroff h v 10 (snd (execute h w (power_shutdown_cmd v))) = (r, w', es)"
    and evs: "evs = Cmd (power_shutdown_cmd v) ?resp # es"
    by (auto simp: graceful_shutdown_onbox_def bnd_def sendcommand_run SHUTDOWN_TIMEOUT_PER_VM_def
        split: prod.splits)
  from wait_poweroff_shape [OF run] evs show ?thesis by blast
qed

lemma graceful_kinds:
  assumes "graceful_shutdown_onbox h v w = (r, w', evs)"
  shows "set (kinds evs) \<subseteq> {KShutdown, KSummary}"
    and "set (commands evs) \<subseteq> {power_shutdown_cmd v, get_summary_cmd v}"
    and "power_shutdown_cmd v \<in> set (commands evs)"
proof -
  from graceful_shape [OF assms] obtain resp outs fin where
    evs: "evs = Cmd (power_shutdown_cmd v) resp # concat (map (poll_round v) outs) @ fin"
    and fin: "fin = [] \<or> (\<exists>out. fin = [Cmd (get_summary_cmd v) out])"
    by blast
  from evs fin show "set (kinds evs) \<subseteq> {KShutdown, KSummary}"
    by (auto dest: kinds_poll_rounds)
  from evs fin show "set (commands evs) \<subseteq> {power_shutdown_cmd v, get_summary_cmd v}"
    by (auto dest: commands_poll_rounds)
  from evs show "power_shutdown_cmd v \<in> set (commands evs)" by simp
qed

text \<open>The run of \<^verbatim>\<open>shutdownvm_onbox\<close>, by what the tools status is.\<close>

lemma shutdownvm_raised:
  assumes "check_vmware_tools_status h v w = (Inl e, w1, e1)"
  shows "shutdownvm_onbox h v w = (Inl e, w1, e1)"
  using assms by (simp add: shutdownvm_onbox_def bnd_def)

lemma shutdownvm_forced:
  assumes "check_vmware_tools_status h v w = (Inr st, w1, e1)" and "\<not> tools_usable st"
  shows "shutdownvm_onbox h v w =
    (Inr (), snd (execute h w1 (power_off_cmd v)),
     e1 @ [Cmd (power_off_cmd v) (fst (execute h w1 (power_off_cmd v)))])"
  using assms by (simp add: shutdownvm_onbox_def bnd_def poweroffvm_onbox_def sendcommand_run ret_def)

lemma shutdownvm_graceful:
  assumes "check_vmware_tools_status h v w = (Inr st, w1, e1)" and "tools_usable st"
    and "graceful_shutdown_onbox h v w1 = (r, w2, evs)"
  shows "shutdownvm_onbox h v w =
    (case r of
       Inl e \<Rightarrow> (Inl e, w2, e1 @ evs)
     | Inr ok \<Rightarrow> if ok then (Inr (), w2, e1 @ evs)
                else (Inr (), snd (execute h w2 (power_off_cmd v)),
                      e1 @ evs @ [Cmd (power_off_cmd v) (fst (execute h w2 (power_off_cmd v)))]))"
  using assms
  by (cases r) (simp_all add: shutdownvm_onbox_def bnd_def poweroffvm_onbox_def sendcommand_run ret_def)

lemma shutdownvm_kinds:
  assumes "shutdownvm_onbox h v w = (r, w', evs)"
  shows "set (kinds evs) \<subseteq> {KGuest, KShutdown, KSummary, KPowerOff}"
    and "set (commands evs) \<subseteq> {get_guest_cmd v, power_shutdown_cmd v, get_summary_cmd v, power_off_cmd v}"
    and "\<exists>out post. evs = Cmd (get_guest_cmd v) out # post"
proof -
  let ?out = "fst (execute h w (get_guest_cmd v))"
  let ?w1 = "snd (execute h w (get_guest_cmd v))"
  let ?e1 = "[Cmd (get_guest_cmd v) ?out]"
  have tools: "check_vmware_tools_status h v w = (read_tools ?out, ?w1, ?e1)"
    by (rule check_tools_run)
  have "set (kinds evs) \<subseteq> {KGuest, KShutdown, KSummary, KPowerOff}
    \<and> set (commands evs) \<subseteq> {get_guest_cmd v, power_shutdown_cmd v, get_summary_cmd v, power_off_cmd v}
    \<and> (\<exists>out post. evs = Cmd (get_guest_cmd v) out # post)"
  proof (cases "read_tools ?out")
    case (Inl e)
    with tools assms shutdownvm_raised [of h v w e ?w1 ?e1] show ?thesis by auto
  next
    case (Inr st)
    show ?thesis
    proof (cases "tools_usable st")
      case False
      with Inr tools assms shutdownvm_forced [of h v w st ?w1 ?e1] show ?thesis by auto
    next
      case True
      obtain r2 w2 ev2 where g: "graceful_shutdown_onbox h v ?w1 = (r2, w2, ev2)"
        by (cases "graceful_shutdown_onbox h v ?w1") auto
      from graceful_kinds [OF g] True Inr tools assms
        shutdownvm_graceful [of h v w st ?w1 ?e1 r2 w2 ev2, OF _ True g]
      show ?thesis by (auto split: sum.splits if_splits)
    qed
  qed
  then show "set (kinds evs) \<subseteq> {KGuest, KShutdown, KSummary, KPowerOff}"
    and "set (commands evs) \<subseteq> {get_guest_cmd v, power_shutdown_cmd v, get_summary_cmd v, power_off_cmd v}"
    and "\<exists>out post. evs = Cmd (get_guest_cmd v) out # post"
    by blast+
qed

text \<open>The maintenance-mode polls.\<close>

lemma wait_mm_shape:
  "wait_mm h wanted n w = (r, w', evs) \<Longrightarrow>
   \<exists>b. r = Inr b \<and> set (kinds evs) \<subseteq> {KMMGet} \<and> length (mm_reads evs) \<le> n
     \<and> (b \<longleftrightarrow> wanted \<in> set (mm_reads evs)) \<and> (\<not> b \<longrightarrow> length (mm_reads evs) = n)"
proof (induction n arbitrary: w r w' evs)
  case 0
  then show ?case by (auto simp: ret_def)
next
  case (Suc n)
  let ?out = "fst (execute h w mm_get_cmd)"
  let ?w1 = "snd (execute h w mm_get_cmd)"
  show ?case
  proof (cases "py_lower (py_strip ?out) = wanted")
    case True
    with Suc.prems have "r = Inr True" "evs = [Cmd mm_get_cmd ?out]"
      by (auto simp: bnd_def sendcommand_run ret_def)
    with True show ?thesis by auto
  next
    case False
    with Suc.prems obtain es where
      run: "wait_mm h wanted n (pause h 1 ?w1) = (r, w', es)"
      and evs: "evs = Cmd mm_get_cmd ?out # Sleep 1 # es"
      by (auto simp: bnd_def sendcommand_run sleep_def split: prod.splits)
    from Suc.IH [OF run] False evs show ?thesis by auto
  qed
qed

lemma maintenancemode_shape:
  assumes "maintenancemode_onbox h enable w = (r, w', evs)"
  shows "\<exists>b out polls. r = Inr b
     \<and> evs = Cmd (if enable then mm_enable_cmd else mm_disable_cmd) out # polls
     \<and> set (kinds polls) \<subseteq> {KMMGet}
     \<and> length (mm_reads polls) \<le> (if enable then 45 else 5)
     \<and> (b \<longleftrightarrow> (if enable then ''enabled'' else ''disabled'') \<in> set (mm_reads polls))
     \<and> (\<not> b \<longrightarrow> length (mm_reads polls) = (if enable then 45 else 5))"
proof (cases enable)
  case True
  with assms obtain es where
    run: "wait_mm h ''enabled'' 45 (snd (execute h w mm_enable_cmd)) = (r, w', es)"
    and evs: "evs = Cmd mm_enable_cmd (fst (execute h w mm_enable_cmd)) # es"
    by (auto simp: maintenancemode_onbox_def bnd_def sendcommand_run MAINTENANCE_MODE_TIMEOUT_def
        split: prod.splits)
  from wait_mm_shape [OF run] evs True show ?thesis by auto
next
  case False
  with assms obtain es where
    run: "wait_mm h ''disabled'' 5 (snd (execute h w mm_disable_cmd)) = (r, w', es)"
    and evs: "evs = Cmd mm_disable_cmd (fst (execute h w mm_disable_cmd)) # es"
    by (auto simp: maintenancemode_onbox_def bnd_def sendcommand_run split: prod.splits)
  from wait_mm_shape [OF run] evs False show ?thesis by auto
qed

section \<open>The quiesce of one workload\<close>

lemma tools_usable_values:
  "tools_usable (Some ''toolsOk'')" "tools_usable (Some ''toolsOld'')"
  "\<not> tools_usable None" "\<not> tools_usable (Some ''toolsNotInstalled'')"
  "\<not> tools_usable (Some ''toolsNotRunning'')" "\<not> tools_usable (Some [])"
  by code_simp+

text \<open>
  C4. In \<^verbatim>\<open>shutdownvm_onbox\<close>, when the tools status read is usable (toolsOk and toolsOld
  are), a forced power-off anywhere in the run has the graceful shutdown request before it;
  when it is not (no status found, toolsNotInstalled, toolsNotRunning), the run is the status
  query followed by the forced power-off, with no shutdown request.
\<close>

theorem shutdown_graceful_before_forced:
  assumes "check_vmware_tools_status h v w = (Inr st, w1, e1)"
  shows "(tools_usable st \<longrightarrow>
            (\<forall>pre out post. trace_of (shutdownvm_onbox h v) w = pre @ Cmd (power_off_cmd v) out # post
               \<longrightarrow> power_shutdown_cmd v \<in> set (commands pre)))
       \<and> (\<not> tools_usable st \<longrightarrow>
            (\<exists>out. trace_of (shutdownvm_onbox h v) w = e1 @ [Cmd (power_off_cmd v) out])
            \<and> KShutdown \<notin> set (kinds (trace_of (shutdownvm_onbox h v) w)))
       \<and> tools_usable (Some ''toolsOk'') \<and> tools_usable (Some ''toolsOld'')
       \<and> \<not> tools_usable None \<and> \<not> tools_usable (Some ''toolsNotInstalled'')
       \<and> \<not> tools_usable (Some ''toolsNotRunning'')"
proof -
  have e1: "e1 = [Cmd (get_guest_cmd v) (fst (execute h w (get_guest_cmd v)))]"
    using assms by (simp add: check_tools_run)
  have graceful: "power_shutdown_cmd v \<in> set (commands pre)"
    if usable: "tools_usable st"
      and split: "trace_of (shutdownvm_onbox h v) w = pre @ Cmd (power_off_cmd v) out # post"
    for pre out post
  proof -
    obtain r2 w2 ev2 where g: "graceful_shutdown_onbox h v w1 = (r2, w2, ev2)"
      by (cases "graceful_shutdown_onbox h v w1") auto
    have no_off: "KPowerOff \<notin> set (kinds (e1 @ ev2))"
      using graceful_kinds(1) [OF g] e1 by auto
    have "\<exists>tl. trace_of (shutdownvm_onbox h v) w = (e1 @ ev2) @ tl"
      using shutdownvm_graceful [OF assms usable g]
      by (auto simp: trace_of_def split: sum.splits if_splits)
    then obtain tl where "(e1 @ ev2) @ tl = pre @ Cmd (power_off_cmd v) out # post"
      using split by auto
    from split_after [OF this] no_off obtain pre' where "pre = (e1 @ ev2) @ pre'"
      by auto
    with graceful_kinds(3) [OF g] show ?thesis by simp
  qed
  have forced: "(\<exists>out. trace_of (shutdownvm_onbox h v) w = e1 @ [Cmd (power_off_cmd v) out])
      \<and> KShutdown \<notin> set (kinds (trace_of (shutdownvm_onbox h v) w))"
    if "\<not> tools_usable st"
    using shutdownvm_forced [OF assms that] e1 by (simp add: trace_of_def)
  from graceful forced tools_usable_values show ?thesis by blast
qed

text \<open>
  C5. The graceful path sends the shutdown request and then polls the power state: each
  poll that reads poweredOn is followed by a sleep of one second, there are at most 10 polls,
  the first poll that reads anything else (unknown too) ends the path with success, and after
  10 polls that read poweredOn the path fails and \<^verbatim>\<open>shutdownvm_onbox\<close> sends the forced
  power-off.
\<close>

theorem graceful_shutdown_bounded_polls:
  assumes "check_vmware_tools_status h v w = (Inr st, w1, e1)" and "tools_usable st"
    and "graceful_shutdown_onbox h v w1 = (r, w2, evs)"
  shows "\<exists>resp outs fin.
       evs = Cmd (power_shutdown_cmd v) resp # concat (map (poll_round v) outs) @ fin
     \<and> (\<forall>out \<in> set outs. read_power out = Inr ''poweredOn'')
     \<and> length (observations evs v) \<le> 10
     \<and> ((r = Inr False \<and> fin = [] \<and> length outs = 10
          \<and> (\<exists>out. trace_of (shutdownvm_onbox h v) w = e1 @ evs @ [Cmd (power_off_cmd v) out]))
        \<or> (\<exists>out. fin = [Cmd (get_summary_cmd v) out] \<and> length outs < 10
              \<and> read_power out \<noteq> Inr ''poweredOn''
              \<and> r = (case read_power out of Inl e \<Rightarrow> Inl e | Inr s \<Rightarrow> Inr True)
              \<and> trace_of (shutdownvm_onbox h v) w = e1 @ evs))"
proof -
  from graceful_shape [OF assms(3)] obtain resp outs fin where
    evs: "evs = Cmd (power_shutdown_cmd v) resp # concat (map (poll_round v) outs) @ fin"
    and on: "\<forall>out \<in> set outs. read_power out = Inr ''poweredOn''"
    and fin: "(r = Inr False \<and> fin = [] \<and> length outs = 10)
        \<or> (\<exists>out. fin = [Cmd (get_summary_cmd v) out] \<and> length outs < 10
              \<and> read_power out \<noteq> Inr ''poweredOn''
              \<and> r = (case read_power out of Inl e \<Rightarrow> Inl e | Inr s \<Rightarrow> Inr True))"
    by blast
  have sd: "power_shutdown_cmd v \<noteq> get_summary_cmd v"
    by (simp add: power_shutdown_cmd_def get_summary_cmd_def)
  have count: "length (observations evs v) \<le> 10"
    using evs fin sd by (auto simp: observations_poll_rounds)
  note run = shutdownvm_graceful [OF assms]
  from fin show ?thesis
  proof
    assume a: "r = Inr False \<and> fin = [] \<and> length outs = 10"
    with run have "\<exists>out. trace_of (shutdownvm_onbox h v) w = e1 @ evs @ [Cmd (power_off_cmd v) out]"
      by (simp add: trace_of_def)
    with a evs on count show ?thesis by blast
  next
    assume "\<exists>out. fin = [Cmd (get_summary_cmd v) out] \<and> length outs < 10
              \<and> read_power out \<noteq> Inr ''poweredOn''
              \<and> r = (case read_power out of Inl e \<Rightarrow> Inl e | Inr s \<Rightarrow> Inr True)"
    then obtain out where a: "fin = [Cmd (get_summary_cmd v) out]" "length outs < 10"
      "read_power out \<noteq> Inr ''poweredOn''"
      "r = (case read_power out of Inl e \<Rightarrow> Inl e | Inr s \<Rightarrow> Inr True)"
      by blast
    with run have "trace_of (shutdownvm_onbox h v) w = e1 @ evs"
      by (cases "read_power out") (simp_all add: trace_of_def)
    with a evs on count show ?thesis by blast
  qed
qed

lemma stuck_guest_tools:
  "check_vmware_tools_status scripted ''7'' stuck_guest =
     (Inr (Some ''toolsOk''), tl stuck_guest, [Cmd (get_guest_cmd ''7'') (guest_output ''toolsOk'')])"
  by code_simp

lemma bare_guest_tools:
  "check_vmware_tools_status scripted ''7'' bare_guest =
     (Inr (Some ''toolsNotInstalled''), [[]],
      [Cmd (get_guest_cmd ''7'') (guest_output ''toolsNotInstalled'')])"
  by code_simp

lemma stuck_guest_trace:
  "trace_of (shutdownvm_onbox scripted ''7'') stuck_guest =
     (Cmd (get_guest_cmd ''7'') (guest_output ''toolsOk'') # Cmd (power_shutdown_cmd ''7'') []
        # concat (replicate 10 (poll_round ''7'' (summary_output ''poweredOn''))))
     @ Cmd (power_off_cmd ''7'') [] # []"
  by code_simp

lemma stuck_guest_graceful:
  "graceful_shutdown_onbox scripted ''7'' (tl stuck_guest) =
     (Inr False, [[]], Cmd (power_shutdown_cmd ''7'') []
        # concat (replicate 10 (poll_round ''7'' (summary_output ''poweredOn''))))"
  by code_simp

theorem shutdown_graceful_before_forced_witness:
  "power_shutdown_cmd ''7'' \<in> set (commands
      (Cmd (get_guest_cmd ''7'') (guest_output ''toolsOk'') # Cmd (power_shutdown_cmd ''7'') []
        # concat (replicate 10 (poll_round ''7'' (summary_output ''poweredOn'')))))
   \<and> (\<exists>out. trace_of (shutdownvm_onbox scripted ''7'') bare_guest =
         [Cmd (get_guest_cmd ''7'') (guest_output ''toolsNotInstalled'')] @ [Cmd (power_off_cmd ''7'') out])
   \<and> KShutdown \<notin> set (kinds (trace_of (shutdownvm_onbox scripted ''7'') bare_guest))"
proof -
  have ok: "tools_usable (Some ''toolsOk'')" and bare: "\<not> tools_usable (Some ''toolsNotInstalled'')"
    by code_simp+
  from shutdown_graceful_before_forced [OF stuck_guest_tools] ok stuck_guest_trace
  have "power_shutdown_cmd ''7'' \<in> set (commands
      (Cmd (get_guest_cmd ''7'') (guest_output ''toolsOk'') # Cmd (power_shutdown_cmd ''7'') []
        # concat (replicate 10 (poll_round ''7'' (summary_output ''poweredOn'')))))"
    by blast
  moreover from shutdown_graceful_before_forced [OF bare_guest_tools] bare
  have "(\<exists>out. trace_of (shutdownvm_onbox scripted ''7'') bare_guest =
         [Cmd (get_guest_cmd ''7'') (guest_output ''toolsNotInstalled'')] @ [Cmd (power_off_cmd ''7'') out])
   \<and> KShutdown \<notin> set (kinds (trace_of (shutdownvm_onbox scripted ''7'') bare_guest))"
    by blast
  ultimately show ?thesis by blast
qed

theorem graceful_shutdown_bounded_polls_witness:
  "\<exists>outs. length outs = 10 \<and> (\<forall>out \<in> set outs. read_power out = Inr ''poweredOn'')
     \<and> (\<exists>out. trace_of (shutdownvm_onbox scripted ''7'') stuck_guest =
           [Cmd (get_guest_cmd ''7'') (guest_output ''toolsOk'')]
           @ (Cmd (power_shutdown_cmd ''7'') [] # concat (map (poll_round ''7'') outs))
           @ [Cmd (power_off_cmd ''7'') out])"
proof -
  let ?evs = "Cmd (power_shutdown_cmd ''7'') []
     # concat (replicate 10 (poll_round ''7'' (summary_output ''poweredOn'')))"
  have ok: "tools_usable (Some ''toolsOk'')"
    by code_simp
  from graceful_shutdown_bounded_polls [OF stuck_guest_tools ok stuck_guest_graceful]
  obtain resp outs fin where
    evs: "?evs = Cmd (power_shutdown_cmd ''7'') resp # concat (map (poll_round ''7'') outs) @ fin"
    and on: "\<forall>out \<in> set outs. read_power out = Inr ''poweredOn''"
    and alt: "(fin = [] \<and> length outs = 10
          \<and> (\<exists>out. trace_of (shutdownvm_onbox scripted ''7'') stuck_guest =
                [Cmd (get_guest_cmd ''7'') (guest_output ''toolsOk'')] @ ?evs @ [Cmd (power_off_cmd ''7'') out]))
        \<or> (\<exists>out. Inr False = (case read_power out of Inl e \<Rightarrow> Inl e | Inr s \<Rightarrow> Inr True))"
    by blast
  have "Inr False \<noteq> (case read_power out of Inl e \<Rightarrow> Inl e | Inr s \<Rightarrow> Inr True)" for out
    by (cases "read_power out") simp_all
  with alt obtain out where fin: "fin = []" and len: "length outs = 10"
    and tr: "trace_of (shutdownvm_onbox scripted ''7'') stuck_guest =
        [Cmd (get_guest_cmd ''7'') (guest_output ''toolsOk'')] @ ?evs @ [Cmd (power_off_cmd ''7'') out]"
    by blast
  from evs fin have "?evs = Cmd (power_shutdown_cmd ''7'') [] # concat (map (poll_round ''7'') outs)"
    by simp
  with tr len on show ?thesis by metis
qed

section \<open>The rollback loop\<close>

text \<open>The keys of the dictionary of VMs.\<close>

lemma dict_set_keys:
  "map fst (dict_set d k v) = (if k \<in> set (map fst d) then map fst d else map fst d @ [k])"
  by (induction d k v rule: dict_set.induct) auto

lemma add_vm_keys:
  assumes "distinct (dict_keys d)" and "\<forall>k \<in> set (dict_keys d). py_isdigit k"
  shows "distinct (dict_keys (add_vm d line)) \<and> (\<forall>k \<in> set (dict_keys (add_vm d line)). py_isdigit k)"
proof (cases "py_isdigit (py_strip line)")
  case True
  then have "dict_keys (add_vm d line) =
      (if py_strip line \<in> set (dict_keys d) then dict_keys d else dict_keys d @ [py_strip line])"
    by (simp add: add_vm_def dict_keys_def dict_set_keys Let_def)
  with assms True show ?thesis by auto
next
  case False
  with assms show ?thesis by (simp add: add_vm_def)
qed

lemma foldl_add_vm_keys:
  "distinct (dict_keys d) \<Longrightarrow> \<forall>k \<in> set (dict_keys d). py_isdigit k \<Longrightarrow>
   distinct (dict_keys (foldl add_vm d lines))
   \<and> (\<forall>k \<in> set (dict_keys (foldl add_vm d lines)). py_isdigit k)"
proof (induction lines arbitrary: d)
  case Nil
  then show ?case by simp
next
  case (Cons line lines)
  from add_vm_keys [OF Cons.prems] Cons.IH [of "add_vm d line"] show ?case by simp
qed

lemma parse_vms_keys:
  "distinct (dict_keys (parse_vms resp))" "k \<in> set (dict_keys (parse_vms resp)) \<Longrightarrow> py_isdigit k"
proof -
  have e: "distinct (dict_keys ([] :: (string \<times> string) list))"
    "\<forall>k \<in> set (dict_keys ([] :: (string \<times> string) list)). py_isdigit k"
    by (simp_all add: dict_keys_def)
  note f = foldl_add_vm_keys [OF e, of "py_split (CHR 0x0A) (py_strip resp)"]
  from f show "distinct (dict_keys (parse_vms resp))"
    by (simp add: parse_vms_def dict_keys_def)
  from f show "k \<in> set (dict_keys (parse_vms resp)) \<Longrightarrow> py_isdigit k"
    by (cases "py_strip resp = []") (auto simp: parse_vms_def dict_keys_def)
qed

lemma summary_ne_poweron [simp]: "get_summary_cmd x \<noteq> power_on_cmd y"
proof
  assume "get_summary_cmd x = power_on_cmd y"
  then have "kind_of (get_summary_cmd x) = kind_of (power_on_cmd y)"
    by (rule arg_cong)
  then show False by simp
qed

lemma poweron_ne_summary [simp]: "power_on_cmd y \<noteq> get_summary_cmd x"
  using summary_ne_poweron [of x y] by (rule not_sym)

lemma dict_keys_empty [simp]: "dict_keys d = [] \<longleftrightarrow> d = []"
  by (simp add: dict_keys_def)

text \<open>Only the index can fail when a state is read.\<close>

lemma line_field_error: "line_field line = Inl e \<Longrightarrow> e = IndexError"
  by (auto simp: line_field_def split: list.splits)

lemma read_power_error: "read_power out = Inl e \<Longrightarrow> e = IndexError"
proof -
  have "power_state_of ls = Inl e \<Longrightarrow> e = IndexError" for ls
    by (induction ls) (auto dest: line_field_error split: if_splits)
  then show "read_power out = Inl e \<Longrightarrow> e = IndexError"
    by (simp add: read_power_def)
qed


text \<open>One round of the rollback loop.\<close>

lemma repower_step:
  assumes "repower_vms h (v # rest) w = (r, w', evs)"
  obtains
    (raised) out e where "read_power out = Inl e" "r = Inl e" "evs = [Cmd (get_summary_cmd v) out]"
  | (on) out outp w1 es where "read_power out = Inr ''poweredOff''"
      "repower_vms h rest w1 = (r, w', es)"
      "evs = Cmd (get_summary_cmd v) out # Cmd (power_on_cmd v) outp # es"
  | (skip) out s w1 es where "read_power out = Inr s" "s \<noteq> ''poweredOff''"
      "repower_vms h rest w1 = (r, w', es)"
      "evs = Cmd (get_summary_cmd v) out # es"
proof -
  let ?out = "fst (execute h w (get_summary_cmd v))"
  show thesis
  proof (cases "read_power ?out")
    case (Inl e)
    with assms have "r = Inl e" "evs = [Cmd (get_summary_cmd v) ?out]"
      by (auto simp: bnd_def getvmpowerstate_run)
    with Inl show thesis by (rule raised)
  next
    case (Inr s)
    show thesis
    proof (cases "s = ''poweredOff''")
      case True
      with Inr assms obtain w1 es where "repower_vms h rest w1 = (r, w', es)"
        "evs = Cmd (get_summary_cmd v) ?out # Cmd (power_on_cmd v)
           (fst (execute h (snd (execute h w (get_summary_cmd v))) (power_on_cmd v))) # es"
        by (auto simp: bnd_def getvmpowerstate_run poweron_run split: prod.splits)
      with Inr True show thesis by (auto intro: on)
    next
      case False
      with Inr assms obtain w1 es where "repower_vms h rest w1 = (r, w', es)"
        "evs = Cmd (get_summary_cmd v) ?out # es"
        by (auto simp: bnd_def getvmpowerstate_run split: prod.splits)
      with Inr False show thesis by (auto intro: skip)
    qed
  qed
qed

lemma repower_commands:
  "repower_vms h vms w = (r, w', evs) \<Longrightarrow> c \<in> set (commands evs) \<Longrightarrow>
   \<exists>v \<in> set vms. c = get_summary_cmd v \<or> c = power_on_cmd v"
proof (induction vms arbitrary: w r w' evs)
  case Nil
  then show ?case by (simp add: ret_def)
next
  case (Cons v rest)
  from Cons.prems(1) show ?case
  proof (cases rule: repower_step)
    case raised
    with Cons.prems(2) show ?thesis by auto
  next
    case on
    with Cons.prems(2) Cons.IH [OF on(2)] show ?thesis by auto
  next
    case skip
    with Cons.prems(2) Cons.IH [OF skip(3)] show ?thesis by auto
  qed
qed

lemma repower_kinds:
  assumes "repower_vms h vms w = (r, w', evs)"
  shows "set (kinds evs) \<subseteq> {KSummary, KPowerOn}"
proof
  fix k assume "k \<in> set (kinds evs)"
  then obtain c where "c \<in> set (commands evs)" "k = kind_of c"
    by (auto simp: kinds_commands)
  with repower_commands [OF assms] show "k \<in> {KSummary, KPowerOn}"
    by fastforce
qed

lemma repower_result:
  "repower_vms h vms w = (r, w', evs) \<Longrightarrow> r = Inr () \<or> r = Inl IndexError"
proof (induction vms arbitrary: w r w' evs)
  case Nil
  then show ?case by (auto simp: ret_def)
next
  case (Cons v rest)
  from Cons.prems(1) show ?case
    by (cases rule: repower_step) (auto dest: read_power_error Cons.IH)
qed

text \<open>A power-on of the rollback has the query of the same VM right before it.\<close>

lemma repower_guard:
  "repower_vms h vms w = (r, w', evs) \<Longrightarrow> evs = pre @ Cmd (power_on_cmd v) out # post \<Longrightarrow>
   \<exists>pre' out'. pre = pre' @ [Cmd (get_summary_cmd v) out'] \<and> read_power out' = Inr ''poweredOff''"
proof (induction vms arbitrary: w r w' evs pre)
  case Nil
  then show ?case by (simp add: ret_def)
next
  case (Cons u rest)
  have ne: "get_summary_cmd u \<noteq> power_on_cmd v" for u
    by simp
  from Cons.prems(1) show ?case
  proof (cases rule: repower_step)
    case (raised out0 e)
    with Cons.prems(2) ne show ?thesis
      by (cases pre) auto
  next
    case (on out0 outp w1 es)
    show ?thesis
    proof (cases pre)
      case Nil
      with on Cons.prems(2) ne show ?thesis by auto
    next
      case (Cons p pre1)
      note outer = this
      show ?thesis
      proof (cases pre1)
        case Nil
        with outer on Cons.prems(2) show ?thesis by auto
      next
        case (Cons q pre2)
        with outer on Cons.prems(2) have "es = pre2 @ Cmd (power_on_cmd v) out # post"
          and pre: "pre = Cmd (get_summary_cmd u) out0 # Cmd (power_on_cmd u) outp # pre2"
          by auto
        from Cons.IH [OF on(2) this(1)] pre show ?thesis by auto
      qed
    qed
  next
    case (skip out0 s w1 es)
    show ?thesis
    proof (cases pre)
      case Nil
      with skip Cons.prems(2) ne show ?thesis by auto
    next
      case (Cons p pre1)
      with skip Cons.prems(2) have "es = pre1 @ Cmd (power_on_cmd v) out # post"
        and pre: "pre = Cmd (get_summary_cmd u) out0 # pre1"
        by auto
      from Cons.IH [OF skip(3) this(1)] pre show ?thesis by auto
    qed
  qed
qed

lemma repower_absent:
  assumes "repower_vms h vms w = (r, w', evs)" and "v \<notin> set vms"
  shows "observations evs v = []" and "\<not> poweron_issued evs v"
proof -
  have "get_summary_cmd v \<notin> set (commands evs)"
  proof
    assume "get_summary_cmd v \<in> set (commands evs)"
    from repower_commands [OF assms(1) this] assms(2) show False by auto
  qed
  then show "observations evs v = []" by (rule observations_empty)
  show "\<not> poweron_issued evs v"
  proof
    assume "poweron_issued evs v"
    then have "power_on_cmd v \<in> set (commands evs)" by (simp add: poweron_issued_def)
    from repower_commands [OF assms(1) this] assms(2) show False by auto
  qed
qed

text \<open>What the rollback reads and does for a VM, when the VMs are distinct.\<close>

lemma repower_partial:
  "repower_vms h vms w = (r, w', evs) \<Longrightarrow> distinct vms \<Longrightarrow> poweron_issued evs v \<Longrightarrow>
   observations evs v = [Inr ''poweredOff'']"
proof (induction vms arbitrary: w r w' evs)
  case Nil
  then show ?case by (simp add: ret_def poweron_issued_def)
next
  case (Cons u rest)
  have ne: "get_summary_cmd x \<noteq> power_on_cmd y" for x y
    by simp
  from Cons.prems(1) show ?case
  proof (cases rule: repower_step)
    case (raised out0 e)
    with Cons.prems(3) ne show ?thesis by (auto simp: poweron_issued_def)
  next
    case (on out0 outp w1 es)
    show ?thesis
    proof (cases "v = u")
      case True
      with Cons.prems(2) have "v \<notin> set rest" by simp
      from repower_absent [OF on(2) this] on True ne show ?thesis by auto
    next
      case False
      with on Cons.prems(3) ne have "poweron_issued es v"
        by (auto simp: poweron_issued_def)
      with Cons.IH [OF on(2)] Cons.prems(2) on False ne show ?thesis by auto
    qed
  next
    case (skip out0 s w1 es)
    show ?thesis
    proof (cases "v = u")
      case True
      with Cons.prems(2) have "v \<notin> set rest" by simp
      from repower_absent [OF skip(3) this] skip True Cons.prems(3) ne show ?thesis
        by (auto simp: poweron_issued_def)
    next
      case False
      with skip Cons.prems(3) ne have "poweron_issued es v"
        by (auto simp: poweron_issued_def)
      with Cons.IH [OF skip(3)] Cons.prems(2) skip False ne show ?thesis by auto
    qed
  qed
qed

lemma repower_complete:
  "repower_vms h vms w = (Inr (), w', evs) \<Longrightarrow> distinct vms \<Longrightarrow> v \<in> set vms \<Longrightarrow>
   \<exists>x. observations evs v = [x] \<and> (poweron_issued evs v \<longleftrightarrow> x = Inr ''poweredOff'')"
proof (induction vms arbitrary: w w' evs)
  case Nil
  then show ?case by simp
next
  case (Cons u rest)
  have ne: "get_summary_cmd x \<noteq> power_on_cmd y" for x y
    by simp
  from Cons.prems(1) show ?case
  proof (cases rule: repower_step)
    case (raised out0 e)
    then show ?thesis by simp
  next
    case (on out0 outp w1 es)
    show ?thesis
    proof (cases "v = u")
      case True
      with Cons.prems(2) have "v \<notin> set rest" by simp
      from repower_absent [OF on(2) this] on True ne show ?thesis
        by (auto simp: poweron_issued_def)
    next
      case False
      with Cons.prems have "distinct rest" "v \<in> set rest" by auto
      from Cons.IH [OF on(2) this] on False ne show ?thesis
        by (auto simp: poweron_issued_def)
    qed
  next
    case (skip out0 s w1 es)
    show ?thesis
    proof (cases "v = u")
      case True
      with Cons.prems(2) have "v \<notin> set rest" by simp
      from repower_absent [OF skip(3) this] skip True ne show ?thesis
        by (auto simp: poweron_issued_def)
    next
      case False
      with Cons.prems have "distinct rest" "v \<in> set rest" by auto
      from Cons.IH [OF skip(3) this] skip False ne show ?thesis
        by (auto simp: poweron_issued_def)
    qed
  qed
qed

text \<open>When the rollback runs to its end, its first event is the query of the first VM.\<close>

lemma repower_first:
  assumes "repower_vms h (v # rest) w = (r, w', evs)"
  shows "\<exists>out tl. evs = Cmd (get_summary_cmd v) out # tl"
  using assms by (cases rule: repower_step) auto

section \<open>The loop before the upgrade\<close>

lemma guest_inj [simp]: "get_guest_cmd v = get_guest_cmd v' \<longleftrightarrow> v = v'"
  by (simp add: get_guest_cmd_def)
lemma shutdown_inj [simp]: "power_shutdown_cmd v = power_shutdown_cmd v' \<longleftrightarrow> v = v'"
  by (simp add: power_shutdown_cmd_def)
lemma poweroff_inj [simp]: "power_off_cmd v = power_off_cmd v' \<longleftrightarrow> v = v'"
  by (simp add: power_off_cmd_def)

lemma kind_neq: "kind_of a \<noteq> kind_of b \<Longrightarrow> a \<noteq> b"
  by auto

lemma isdigit_no_space: "py_isdigit v \<Longrightarrow> CHR '' '' \<notin> set v"
proof
  assume d: "py_isdigit v" and "CHR '' '' \<in> set v"
  then have "py_isdigit_char (CHR '' '')"
    by (auto simp: py_isdigit_def list_all_iff)
  then show False by (simp add: py_isdigit_char_def)
qed

lemma until_space:
  assumes "CHR '' '' \<notin> set a" and "CHR '' '' \<notin> set b"
    and "a @ CHR '' '' # r = b @ CHR '' '' # r'"
  shows "a = b"
proof -
  have "takeWhile (\<lambda>c. c \<noteq> CHR '' '') (x @ CHR '' '' # y) = x" if "CHR '' '' \<notin> set x" for x y
    using that by (subst takeWhile_append2) auto
  from this [OF assms(1), of r] this [OF assms(2), of r'] assms(3) show ?thesis by simp
qed

lemma autostart_inj:
  assumes "py_isdigit v" and "py_isdigit v'" and "autostart_cmd v k = autostart_cmd v' k'"
  shows "v = v'"
proof -
  from assms(3) obtain r r' where "v @ CHR '' '' # r = v' @ CHR '' '' # r'"
    by (simp add: autostart_cmd_def)
  with isdigit_no_space [OF assms(1)] isdigit_no_space [OF assms(2)] show ?thesis
    by (rule until_space)
qed

text \<open>One round of the loop over the VMs before the upgrade.\<close>

lemma quiesce_step:
  assumes "quiesce_vms h (v # rest) k w = (r, w', evs)"
  obtains
    (raised) out e where "read_power out = Inl e" "r = Inl e"
      "evs = [Cmd (get_summary_cmd v) out]"
  | (skip) out s w1 es where "read_power out = Inr s" "s \<noteq> ''poweredOn''"
      "quiesce_vms h rest k w1 = (r, w', es)" "evs = Cmd (get_summary_cmd v) out # es"
  | (failed) out oa w1 e sd where "read_power out = Inr ''poweredOn''"
      "shutdownvm_onbox h v w1 = (Inl e, w', sd)" "r = Inl e"
      "evs = Cmd (get_summary_cmd v) out # Cmd (autostart_cmd v k) oa # sd"
  | (on) out oa w1 w2 sd es where "read_power out = Inr ''poweredOn''"
      "shutdownvm_onbox h v w1 = (Inr (), w2, sd)"
      "quiesce_vms h rest (k + 1) w2 = (r, w', es)"
      "evs = Cmd (get_summary_cmd v) out # Cmd (autostart_cmd v k) oa # sd @ es"
proof -
  let ?out = "fst (execute h w (get_summary_cmd v))"
  let ?w0 = "snd (execute h w (get_summary_cmd v))"
  let ?oa = "fst (execute h ?w0 (autostart_cmd v k))"
  let ?w1 = "snd (execute h ?w0 (autostart_cmd v k))"
  show thesis
  proof (cases "read_power ?out")
    case (Inl e)
    with assms have "r = Inl e" "evs = [Cmd (get_summary_cmd v) ?out]"
      by (auto simp: bnd_def getvmpowerstate_run)
    with Inl show thesis by (rule raised)
  next
    case (Inr s)
    show thesis
    proof (cases "s = ''poweredOn''")
      case False
      with Inr assms obtain w1 es where "quiesce_vms h rest k w1 = (r, w', es)"
        "evs = Cmd (get_summary_cmd v) ?out # es"
        by (auto simp: bnd_def getvmpowerstate_run split: prod.splits)
      with Inr False show thesis by (auto intro: skip)
    next
      case True
      obtain rs w2 sd where sd: "shutdownvm_onbox h v ?w1 = (rs, w2, sd)"
        by (cases "shutdownvm_onbox h v ?w1") auto
      show thesis
      proof (cases rs)
        case (Inl e)
        with Inr True assms sd have "r = Inl e" "w' = w2"
          "evs = Cmd (get_summary_cmd v) ?out # Cmd (autostart_cmd v k) ?oa # sd"
          by (auto simp: bnd_def getvmpowerstate_run sendcommand_run)
        with Inr True sd Inl show thesis by (auto intro: failed)
      next
        case (Inr u)
        with \<open>read_power ?out = Inr s\<close> True assms sd obtain es where
          "quiesce_vms h rest (k + 1) w2 = (r, w', es)"
          "evs = Cmd (get_summary_cmd v) ?out # Cmd (autostart_cmd v k) ?oa # sd @ es"
          by (auto simp: bnd_def getvmpowerstate_run sendcommand_run split: prod.splits)
        with \<open>read_power ?out = Inr s\<close> True sd Inr show thesis by (auto intro: on)
      qed
    qed
  qed
qed

lemma shutdownvm_about:
  assumes "shutdownvm_onbox h v w = (r, w', evs)" and "c \<in> set (commands evs)"
  shows "about v c"
  using shutdownvm_kinds(2) [OF assms(1)] assms(2) by (auto simp: about_def)

lemma quiesce_commands:
  "quiesce_vms h vms k w = (r, w', evs) \<Longrightarrow> c \<in> set (commands evs) \<Longrightarrow> \<exists>v \<in> set vms. about v c"
proof (induction vms arbitrary: k w r w' evs)
  case Nil
  then show ?case by (simp add: ret_def)
next
  case (Cons v rest)
  from Cons.prems(1) show ?case
  proof (cases rule: quiesce_step)
    case raised
    with Cons.prems(2) show ?thesis by (auto simp: about_def)
  next
    case skip
    with Cons.prems(2) Cons.IH [OF skip(3)] show ?thesis by (auto simp: about_def)
  next
    case failed
    with Cons.prems(2) shutdownvm_about [OF failed(2)] show ?thesis by (auto simp: about_def)
  next
    case on
    with Cons.prems(2) shutdownvm_about [OF on(2)] Cons.IH [OF on(3)] show ?thesis
      by (auto simp: about_def)
  qed
qed

lemma about_kind: "about v c \<Longrightarrow> kind_of c \<in> {KSummary, KAutostart, KGuest, KShutdown, KPowerOff}"
  by (auto simp: about_def)

lemma quiesce_kinds:
  assumes "quiesce_vms h vms k w = (r, w', evs)"
  shows "set (kinds evs) \<subseteq> {KSummary, KAutostart, KGuest, KShutdown, KPowerOff}"
proof
  fix x assume "x \<in> set (kinds evs)"
  then obtain c where "c \<in> set (commands evs)" "x = kind_of c"
    by (auto simp: kinds_commands)
  with quiesce_commands [OF assms] about_kind
  show "x \<in> {KSummary, KAutostart, KGuest, KShutdown, KPowerOff}"
    by blast
qed

lemma about_summary: "about u (get_summary_cmd v) \<longleftrightarrow> u = v"
proof -
  have "get_summary_cmd v \<noteq> get_guest_cmd u" "get_summary_cmd v \<noteq> power_shutdown_cmd u"
    "get_summary_cmd v \<noteq> power_off_cmd u" "get_summary_cmd v \<noteq> autostart_cmd u k" for k
    by (rule kind_neq, simp)+
  then show ?thesis by (auto simp: about_def)
qed

lemma quiesce_absent:
  assumes "quiesce_vms h vms k w = (r, w', evs)" and "v \<notin> set vms"
  shows "observations evs v = []"
proof (rule observations_empty, rule)
  assume "get_summary_cmd v \<in> set (commands evs)"
  from quiesce_commands [OF assms(1) this] assms(2) show False
    by (auto simp: about_summary)
qed

lemma shutdownvm_other:
  assumes "shutdownvm_onbox h v w = (r, w', evs)" and "u \<noteq> v"
  shows "observations evs u = []"
proof (rule observations_empty, rule)
  assume "get_summary_cmd u \<in> set (commands evs)"
  from shutdownvm_about [OF assms(1) this] assms(2) show False
    by (auto simp: about_summary)
qed

lemma quiesce_queried:
  "quiesce_vms h vms k w = (Inr (), w', evs) \<Longrightarrow> v \<in> set vms \<Longrightarrow> observations evs v \<noteq> []"
proof (induction vms arbitrary: k w w' evs)
  case Nil
  then show ?case by simp
next
  case (Cons u rest)
  from Cons.prems(1) show ?case
  proof (cases rule: quiesce_step)
    case raised
    then show ?thesis by simp
  next
    case skip
    with Cons.prems(2) Cons.IH [OF skip(3)] show ?thesis by (cases "v = u") auto
  next
    case failed
    then show ?thesis by simp
  next
    case on
    with Cons.prems(2) Cons.IH [OF on(3)] show ?thesis by (cases "v = u") auto
  qed
qed

lemma first_state_skip: "observations a u = [] \<Longrightarrow> first_state (a @ b) u = first_state b u"
  by (simp add: first_state_def)

lemma first_state_keep: "observations a u \<noteq> [] \<Longrightarrow> first_state (a @ b) u = first_state a u"
  by (cases "observations a u") (simp_all add: first_state_def)

lemma first_state_query [simp]:
  "first_state (Cmd (get_summary_cmd v) out # es) v = Some (read_power out)"
  by (simp add: first_state_def)

lemma first_state_other:
  "c \<noteq> get_summary_cmd u \<Longrightarrow> first_state (Cmd c out # es) u = first_state es u"
  by (simp add: first_state_def)

lemma first_state_none: "observations es u = [] \<Longrightarrow> first_state es u = None"
  by (simp add: first_state_def)

lemma registrations_Nil [simp]: "registrations [] k = []"
  by (simp add: registrations_def)

lemma registrations_Cons: "registrations (v # vs) k = autostart_cmd v k # registrations vs (k + 1)"
  by (simp add: registrations_def map_upt_Suc del: upt_Suc)

lemma autostarts_simps [simp]:
  "autostarts [] = []"
  "autostarts (Cmd c out # es) = (if kind_of c = KAutostart then c # autostarts es else autostarts es)"
  "autostarts (a @ b) = autostarts a @ autostarts b"
  by (simp_all add: autostarts_def)

lemma autostarts_none: "KAutostart \<notin> set (kinds es) \<Longrightarrow> autostarts es = []"
  by (force simp: autostarts_def kinds_commands filter_empty_conv)

lemma shutdownvm_no_autostart:
  assumes "shutdownvm_onbox h v w = (r, w', evs)"
  shows "autostarts evs = []" and "KAutostart \<notin> set (kinds evs)"
  using shutdownvm_kinds(1) [OF assms] by (auto intro!: autostarts_none)

text \<open>The registrations of the loop are those of the VMs it first read as on, in order.\<close>

lemma quiesce_autostarts:
  "quiesce_vms h vms k w = (r, w', evs) \<Longrightarrow> distinct vms \<Longrightarrow>
   autostarts evs = registrations (restore_set evs vms) k"
proof (induction vms arbitrary: k w r w' evs)
  case Nil
  then show ?case by (simp add: ret_def restore_set_def)
next
  case (Cons v rest)
  from Cons.prems(2) have dist: "distinct rest" and notin: "v \<notin> set rest" by auto
  have ne: "autostart_cmd v k \<noteq> get_summary_cmd u" for u
    by (rule kind_neq) simp
  from Cons.prems(1) show ?case
  proof (cases rule: quiesce_step)
    case (raised out e)
    have "first_state evs u \<noteq> Some (Inr ''poweredOn'')" if "u \<in> set rest" for u
      using that notin raised by (auto simp: first_state_def)
    then have "restore_set evs rest = []"
      by (auto simp: restore_set_def filter_empty_conv)
    with raised show ?thesis by (simp add: restore_set_def)
  next
    case (skip out s w1 es)
    have "first_state evs u = first_state es u" if "u \<in> set rest" for u
      using that notin skip by (auto simp: first_state_def)
    then have "restore_set evs rest = restore_set es rest"
      by (auto simp: restore_set_def intro: filter_cong)
    with skip Cons.IH [OF skip(3) dist] show ?thesis by (simp add: restore_set_def)
  next
    case (failed out oa w1 e sd)
    have "first_state evs u \<noteq> Some (Inr ''poweredOn'')" if "u \<in> set rest" for u
    proof -
      from that notin have "u \<noteq> v" by auto
      with shutdownvm_other [OF failed(2) this] failed ne show ?thesis
        by (simp add: first_state_def)
    qed
    then have "restore_set evs rest = []"
      by (auto simp: restore_set_def filter_empty_conv)
    with failed shutdownvm_no_autostart [OF failed(2)] show ?thesis
      by (simp add: restore_set_def registrations_Cons)
  next
    case (on out oa w1 w2 sd es)
    have "first_state evs u = first_state es u" if "u \<in> set rest" for u
    proof -
      from that notin have "u \<noteq> v" by auto
      with shutdownvm_other [OF on(2) this] on ne show ?thesis
        by (simp add: first_state_def)
    qed
    then have "restore_set evs rest = restore_set es rest"
      by (auto simp: restore_set_def intro: filter_cong)
    with on shutdownvm_no_autostart [OF on(2)] Cons.IH [OF on(3) dist] show ?thesis
      by (simp add: restore_set_def registrations_Cons)
  qed
qed

lemma quiesce_autostart_vm:
  assumes "quiesce_vms h vms k w = (r, w', evs)" and "\<forall>u \<in> set vms. py_isdigit u"
    and "py_isdigit v" and "autostart_cmd v k' \<in> set (commands evs)"
  shows "v \<in> set vms"
proof -
  from quiesce_commands [OF assms(1,4)] obtain u where u: "u \<in> set vms" "about u (autostart_cmd v k')"
    by blast
  have "autostart_cmd v k' \<noteq> get_summary_cmd u" "autostart_cmd v k' \<noteq> get_guest_cmd u"
    "autostart_cmd v k' \<noteq> power_shutdown_cmd u" "autostart_cmd v k' \<noteq> power_off_cmd u"
    by (rule kind_neq, simp)+
  with u(2) obtain k'' where "autostart_cmd v k' = autostart_cmd u k''"
    by (auto simp: about_def)
  with assms(2,3) u(1) have "v = u" by (auto dest: autostart_inj)
  with u(1) show ?thesis by simp
qed

text \<open>No command of the quiesce of a VM is before its registration, and the quiesce follows.\<close>

lemma quiesce_registered_first:
  "quiesce_vms h vms k w = (r, w', evs) \<Longrightarrow> distinct vms \<Longrightarrow> \<forall>u \<in> set vms. py_isdigit u \<Longrightarrow>
   v \<in> set vms \<Longrightarrow> evs = pre @ Cmd (autostart_cmd v k') out # post \<Longrightarrow>
   get_guest_cmd v \<notin> set (commands pre) \<and> power_shutdown_cmd v \<notin> set (commands pre)
   \<and> power_off_cmd v \<notin> set (commands pre) \<and> (\<exists>out' post'. post = Cmd (get_guest_cmd v) out' # post')"
proof (induction vms arbitrary: k w r w' evs pre)
  case Nil
  then show ?case by simp
next
  case (Cons u rest)
  let ?c = "autostart_cmd v k'"
  from Cons.prems have dist: "distinct rest" and notin: "u \<notin> set rest"
    and digits: "\<forall>x \<in> set rest. py_isdigit x" and dv: "py_isdigit v" and du: "py_isdigit u"
    by auto
  have ne: "get_summary_cmd u \<noteq> get_guest_cmd v" "get_summary_cmd u \<noteq> power_shutdown_cmd v"
    "get_summary_cmd u \<noteq> power_off_cmd v" "autostart_cmd u k \<noteq> get_guest_cmd v"
    "autostart_cmd u k \<noteq> power_shutdown_cmd v" "autostart_cmd u k \<noteq> power_off_cmd v"
    by (rule kind_neq, simp)+
  have front: "kind_of ?c \<notin> set (kinds [Cmd (get_summary_cmd u) o1])" for o1
    by simp
  have in_rest: "?case" if run: "quiesce_vms h rest k1 w1 = (r, w', es)"
    and es: "es = p @ Cmd ?c out # post" and pre: "pre = q @ p"
    and q: "get_guest_cmd v \<notin> set (commands q)" "power_shutdown_cmd v \<notin> set (commands q)"
      "power_off_cmd v \<notin> set (commands q)"
    for k1 w1 es p q
  proof -
    from es have "?c \<in> set (commands es)" by simp
    from quiesce_autostart_vm [OF run digits dv this] have "v \<in> set rest" .
    from Cons.IH [OF run dist digits this es] pre q show ?case by simp
  qed
  from Cons.prems(1) show ?case
  proof (cases rule: quiesce_step)
    case (raised o1 e)
    with Cons.prems(5) have "[Cmd (get_summary_cmd u) o1] @ [] = pre @ Cmd ?c out # post"
      by simp
    from split_after [OF this front] show ?thesis by simp
  next
    case (skip o1 s w1 es)
    with Cons.prems(5) have "[Cmd (get_summary_cmd u) o1] @ es = pre @ Cmd ?c out # post"
      by simp
    from split_after [OF this front] obtain p where
      p: "pre = [Cmd (get_summary_cmd u) o1] @ p" "es = p @ Cmd ?c out # post"
      by blast
    from in_rest [OF skip(3) p(2) p(1)] ne show ?thesis by simp
  next
    case (failed o1 oa w1 e sd)
    with Cons.prems(5)
    have "[Cmd (get_summary_cmd u) o1] @ (Cmd (autostart_cmd u k) oa # sd) = pre @ Cmd ?c out # post"
      by simp
    from split_after [OF this front] obtain p where
      p: "pre = [Cmd (get_summary_cmd u) o1] @ p" "Cmd (autostart_cmd u k) oa # sd = p @ Cmd ?c out # post"
      by blast
    show ?thesis
    proof (cases p)
      case Nil
      with p have eq: "autostart_cmd u k = ?c" and post: "post = sd" by auto
      with du dv have "v = u" by (auto dest: autostart_inj)
      with shutdownvm_kinds(3) [OF failed(2)] post p Nil ne show ?thesis by auto
    next
      case (Cons x p')
      with p have "Cmd ?c out \<in> set sd" by auto
      then have "KAutostart \<in> set (kinds sd)"
        by (auto dest!: Cmd_in_commands commands_kind)
      with shutdownvm_no_autostart(2) [OF failed(2)] show ?thesis by simp
    qed
  next
    case (on o1 oa w1 w2 sd es)
    with Cons.prems(5)
    have "[Cmd (get_summary_cmd u) o1] @ (Cmd (autostart_cmd u k) oa # sd @ es) = pre @ Cmd ?c out # post"
      by simp
    from split_after [OF this front] obtain p where
      p: "pre = [Cmd (get_summary_cmd u) o1] @ p"
        "Cmd (autostart_cmd u k) oa # sd @ es = p @ Cmd ?c out # post"
      by blast
    show ?thesis
    proof (cases p)
      case Nil
      with p have eq: "autostart_cmd u k = ?c" and post: "post = sd @ es" by auto
      with du dv have "v = u" by (auto dest: autostart_inj)
      with shutdownvm_kinds(3) [OF on(2)] post p Nil ne show ?thesis by auto
    next
      case (Cons x p')
      with p have x: "x = Cmd (autostart_cmd u k) oa" and "sd @ es = p' @ Cmd ?c out # post"
        by auto
      from split_after [OF this(2)] shutdownvm_no_autostart(2) [OF on(2)] obtain p3 where
        p3: "p' = sd @ p3" "es = p3 @ Cmd ?c out # post"
        by auto
      from p3(2) have "?c \<in> set (commands es)" by simp
      from quiesce_autostart_vm [OF on(3) digits dv this] notin have vu: "v \<noteq> u" by auto
      have sdq: "get_guest_cmd v \<notin> set (commands sd)" "power_shutdown_cmd v \<notin> set (commands sd)"
        "power_off_cmd v \<notin> set (commands sd)"
        using shutdownvm_kinds(2) [OF on(2)] vu
        by (auto dest!: subsetD dest: arg_cong [where f = kind_of])
      have pre: "pre = (Cmd (get_summary_cmd u) o1 # Cmd (autostart_cmd u k) oa # sd) @ p3"
        using p Cons x p3 by simp
      from in_rest [OF on(3) p3(2) pre] ne sdq show ?thesis by simp
    qed
  qed
qed

section \<open>The run of the script\<close>

lemma bnd_send:
  "bnd (sendcommand_onbox h c) k w =
     (case k (fst (execute h w c)) (snd (execute h w c)) of
        (r, w2, es) \<Rightarrow> (r, w2, Cmd c (fst (execute h w c)) # es))"
  by (simp add: bnd_def sendcommand_run)

lemma bnd_sleep:
  "bnd (sleep h n) k w = (case k () (pause h n w) of (r, w2, es) \<Rightarrow> (r, w2, Sleep n # es))"
  by (simp add: bnd_def sleep_def)

lemma bnd_getvms:
  "bnd (getvms_onbox h) k w =
     (case k (parse_vms (fst (execute h w getallvms_cmd))) (snd (execute h w getallvms_cmd)) of
        (r, w2, es) \<Rightarrow> (r, w2, Cmd getallvms_cmd (fst (execute h w getallvms_cmd)) # es))"
  by (simp add: bnd_def getvms_onbox_def sendcommand_run ret_def)

lemma quiesce_if:
  "(if vms = [] then ret () else quiesce_vms h (dict_keys vms) 1) = quiesce_vms h (dict_keys vms) 1"
  by (cases vms) (simp_all add: dict_keys_def)

lemma maintenancemode_total:
  "maintenancemode_onbox h enable w \<noteq> (Inl e, w', evs)"
  using maintenancemode_shape [of h enable w "Inl e" w' evs] by auto

text \<open>The five ways a run of the script goes.\<close>

lemma main_cases:
  assumes "main h w = (r, w', evs)"
  obtains
    (not_found) o1 o2 where
      "\<not> py_in UPGRADE_FILENAME o2" "r = Inl (SystemExit 1)"
      "evs = [Cmd pwd_cmd o1, Cmd (ls_cmd (py_strip o1)) o2]"
  | (quiesce_raised) o1 o2 o3 o4 o5 wq e evq where
      "py_in UPGRADE_FILENAME o2"
      "quiesce_vms h (dict_keys (parse_vms o5)) 1 wq = (Inl e, w', evq)" "r = Inl e"
      "evs = prologue o1 o2 o3 o4 o5 @ evq"
  | (mm_failed) o1 o2 o3 o4 o5 wq wq' evq wm evm rr evr where
      "py_in UPGRADE_FILENAME o2"
      "quiesce_vms h (dict_keys (parse_vms o5)) 1 wq = (Inr (), wq', evq)"
      "maintenancemode_onbox h True wq' = (Inr False, wm, evm)"
      "repower_vms h (dict_keys (parse_vms o5)) wm = (rr, w', evr)"
      "r = (case rr of Inl e \<Rightarrow> Inl e | Inr _ \<Rightarrow> Inl (SystemExit 2))"
      "evs = prologue o1 o2 o3 o4 o5 @ evq @ evm @ evr"
  | (rebooted) o1 o2 o3 o4 o5 wq wq' evq wm evm resp wu b wx evx o6 where
      "py_in UPGRADE_FILENAME o2"
      "quiesce_vms h (dict_keys (parse_vms o5)) 1 wq = (Inr (), wq', evq)"
      "maintenancemode_onbox h True wq' = (Inr True, wm, evm)"
      "upgrade_succeeded resp"
      "maintenancemode_onbox h False wu = (Inr b, wx, evx)"
      "r = Inr ()"
      "evs = prologue o1 o2 o3 o4 o5 @ evq @ evm
         @ Cmd (upgrade_cmd (py_strip o1 @ ''/'' @ UPGRADE_FILENAME)) resp # evx @ [Cmd reboot_cmd o6]"
  | (rolled_back) o1 o2 o3 o4 o5 wq wq' evq wm evm resp wu b wx evx rr evr where
      "py_in UPGRADE_FILENAME o2"
      "quiesce_vms h (dict_keys (parse_vms o5)) 1 wq = (Inr (), wq', evq)"
      "maintenancemode_onbox h True wq' = (Inr True, wm, evm)"
      "\<not> upgrade_succeeded resp"
      "maintenancemode_onbox h False wu = (Inr b, wx, evx)"
      "repower_vms h (dict_keys (parse_vms o5)) wx = (rr, w', evr)"
      "r = (case rr of Inl e \<Rightarrow> Inl e | Inr _ \<Rightarrow> Inl (SystemExit 3))"
      "evs = prologue o1 o2 o3 o4 o5 @ evq @ evm
         @ Cmd (upgrade_cmd (py_strip o1 @ ''/'' @ UPGRADE_FILENAME)) resp # evx @ evr"
proof -
  let ?o1 = "fst (execute h w pwd_cmd)"
  let ?w1 = "snd (execute h w pwd_cmd)"
  let ?o2 = "fst (execute h ?w1 (ls_cmd (py_strip ?o1)))"
  let ?w2 = "snd (execute h ?w1 (ls_cmd (py_strip ?o1)))"
  let ?o3 = "fst (execute h ?w2 enable_ssh_cmd)"
  let ?w3 = "snd (execute h ?w2 enable_ssh_cmd)"
  let ?o4 = "fst (execute h ?w3 enable_autostart_cmd)"
  let ?w4 = "snd (execute h ?w3 enable_autostart_cmd)"
  let ?o5 = "fst (execute h ?w4 getallvms_cmd)"
  let ?w5 = "snd (execute h ?w4 getallvms_cmd)"
  let ?keys = "dict_keys (parse_vms ?o5)"
  let ?path = "py_strip ?o1 @ ''/'' @ UPGRADE_FILENAME"
  let ?pro = "prologue ?o1 ?o2 ?o3 ?o4 ?o5"
  show thesis
  proof (cases "py_in UPGRADE_FILENAME ?o2")
    case False
    with assms have "r = Inl (SystemExit 1)"
      "evs = [Cmd pwd_cmd ?o1, Cmd (ls_cmd (py_strip ?o1)) ?o2]"
      by (auto simp: main_def Let_def bnd_send raise_def)
    with False show thesis by (rule not_found)
  next
    case True
    define decide where "decide = (\<lambda>upgrade_resp.
       if upgrade_succeeded upgrade_resp
       then bnd (maintenancemode_onbox h False) (\<lambda>_. bnd (reboothost_onbox h) (\<lambda>_. ret ()))
       else bnd (maintenancemode_onbox h False) (\<lambda>_.
            bnd (repower_vms h ?keys) (\<lambda>_. raise (SystemExit 3))))"
    define after_mm where "after_mm = (\<lambda>mm_ok.
       if \<not> mm_ok then bnd (repower_vms h ?keys) (\<lambda>_. raise (SystemExit 2))
       else bnd (upgradehost_onbox h ?path) decide)"
    define tail where
      "tail = bnd (quiesce_vms h ?keys 1) (\<lambda>_. bnd (maintenancemode_onbox h True) after_mm)"
    obtain r0 w0 es where run0: "tail (pause h 1 ?w5) = (r0, w0, es)"
      by (cases "tail (pause h 1 ?w5)") auto
    have "main h w = (r0, w0, ?pro @ es)"
      unfolding main_def Let_def
      apply (simp only: bnd_send bnd_sleep bnd_getvms quiesce_if True not_True_eq_False
          if_False run0 [unfolded tail_def after_mm_def decide_def] prod.case)
      apply (simp add: prologue_def)
      done
    with assms have evs: "evs = ?pro @ es" and "r0 = r" "w0 = w'"
      by simp_all
    note run0 = run0 [unfolded this(2,3)]
    from run0 have
      run: "bnd (quiesce_vms h ?keys 1) (\<lambda>_. bnd (maintenancemode_onbox h True) after_mm)
              (pause h 1 ?w5) = (r, w', es)"
      by (simp add: tail_def)
    note found = True
    from run show thesis
    proof (cases rule: bndE)
      case (fail e)
      from found fail(1,2) evs show thesis by (rule quiesce_raised)
    next
      case (ok x wq' evq es1)
      then have q: "quiesce_vms h ?keys 1 (pause h 1 ?w5) = (Inr (), wq', evq)" by simp
      note es = \<open>es = evq @ es1\<close>
      from ok(2) show thesis
      proof (cases rule: bndE)
        case (fail e)
        from fail(1) show thesis by (simp add: maintenancemode_total)
      next
        case (ok mm_ok wm evm es2)
        note mm = ok
        show thesis
        proof (cases mm_ok)
          case False
          with mm(1) have mmF: "maintenancemode_onbox h True wq' = (Inr False, wm, evm)" by simp
          from False mm(2) have "bnd (repower_vms h ?keys) (\<lambda>_. raise (SystemExit 2)) wm = (r, w', es2)"
            by (simp add: after_mm_def)
          then obtain rr where rr: "repower_vms h ?keys wm = (rr, w', es2)"
            "r = (case rr of Inl e \<Rightarrow> Inl e | Inr _ \<Rightarrow> Inl (SystemExit 2))"
            by (auto simp: bnd_def raise_def split: prod.splits sum.splits)
          from evs es mm(3) have "evs = ?pro @ evq @ evm @ es2" by simp
          with found q mmF rr show thesis by (rule mm_failed)
        next
          case True
          with mm(1) have mmT: "maintenancemode_onbox h True wq' = (Inr True, wm, evm)" by simp
          let ?resp = "fst (execute h wm (upgrade_cmd ?path))"
          let ?wu = "snd (execute h wm (upgrade_cmd ?path))"
          from mm(2) True obtain es3 where
            d: "decide ?resp ?wu = (r, w', es3)" and es2: "es2 = Cmd (upgrade_cmd ?path) ?resp # es3"
            by (auto simp: after_mm_def upgradehost_onbox_def bnd_send split: prod.splits)
          show thesis
          proof (cases "upgrade_succeeded ?resp")
            case True
            note good = True
            with d have "bnd (maintenancemode_onbox h False)
                (\<lambda>_. bnd (reboothost_onbox h) (\<lambda>_. ret ())) ?wu = (r, w', es3)"
              by (simp add: decide_def)
            then show thesis
            proof (cases rule: bndE)
              case (fail e)
              from fail(1) show thesis by (simp add: maintenancemode_total)
            next
              case (ok b wx evx es4)
              from ok(2) have r: "r = Inr ()"
                and es4: "es4 = [Cmd reboot_cmd (fst (execute h wx reboot_cmd))]"
                by (auto simp: reboothost_onbox_def bnd_def sendcommand_run ret_def)
              from evs es mm(3) es2 ok(3) es4
              have "evs = ?pro @ evq @ evm @ Cmd (upgrade_cmd ?path) ?resp # evx
                  @ [Cmd reboot_cmd (fst (execute h wx reboot_cmd))]"
                by simp
              with found q mmT good ok(1) r show thesis by (rule rebooted)
            qed
          next
            case False
            note bad = False
            with d have "bnd (maintenancemode_onbox h False)
                (\<lambda>_. bnd (repower_vms h ?keys) (\<lambda>_. raise (SystemExit 3))) ?wu = (r, w', es3)"
              by (simp add: decide_def)
            then show thesis
            proof (cases rule: bndE)
              case (fail e)
              from fail(1) show thesis by (simp add: maintenancemode_total)
            next
              case (ok b wx evx es4)
              from ok(2) obtain rr where rr: "repower_vms h ?keys wx = (rr, w', es4)"
                "r = (case rr of Inl e \<Rightarrow> Inl e | Inr _ \<Rightarrow> Inl (SystemExit 3))"
                by (auto simp: bnd_def raise_def split: prod.splits sum.splits)
              from evs es mm(3) es2 ok(3)
              have "evs = ?pro @ evq @ evm @ Cmd (upgrade_cmd ?path) ?resp # evx @ es4"
                by simp
              with found q mmT bad ok(1) rr show thesis by (rule rolled_back)
            qed
          qed
        qed
      qed
    qed
  qed
qed

lemma kinds_prologue [simp]:
  "kinds (prologue o1 o2 o3 o4 o5) = [KPwd, KLs, KEnableSsh, KEnableAutostart, KGetAllVms]"
  by (simp add: prologue_def)

lemma discovered_prologue [simp]:
  "discovered (prologue o1 o2 o3 o4 o5) = dict_keys (parse_vms o5)"
proof -
  have "pwd_cmd \<noteq> getallvms_cmd" "ls_cmd p \<noteq> getallvms_cmd" "enable_ssh_cmd \<noteq> getallvms_cmd"
    "enable_autostart_cmd \<noteq> getallvms_cmd" for p
    by (rule kind_neq, simp)+
  then show ?thesis by (simp add: prologue_def)
qed

lemma latest_state_last:
  "observations b v = [x] \<Longrightarrow> latest_state (a @ b) v = Some x"
  by (simp add: latest_state_def)

lemma latest_state_append_none:
  "observations b v = [] \<Longrightarrow> latest_state (a @ b) v = latest_state a v"
  by (simp add: latest_state_def)

lemma kinds_subset_none: "set (kinds es) \<subseteq> K \<Longrightarrow> k \<notin> K \<Longrightarrow> k \<notin> set (kinds es)"
  by auto

text \<open>What the parts of a run contain.\<close>

lemma prologue_quiet:
  "observations (prologue o1 o2 o3 o4 o5) v = []" "mm_reads (prologue o1 o2 o3 o4 o5) = []"
  "\<not> poweron_issued (prologue o1 o2 o3 o4 o5) v" "autostarts (prologue o1 o2 o3 o4 o5) = []"
  by (simp_all add: observations_none mm_reads_none poweron_issued_none autostarts_none)

lemma quiesce_quiet:
  assumes "quiesce_vms h vms k w = (r, w', evs)"
  shows "mm_reads evs = []" "discovered evs = []" "\<not> poweron_issued evs v"
    "k' \<notin> {KSummary, KAutostart, KGuest, KShutdown, KPowerOff} \<Longrightarrow> k' \<notin> set (kinds evs)"
  using quiesce_kinds [OF assms]
  by (auto intro!: mm_reads_none discovered_none dest: poweron_issued_none [of evs v, THEN notE, rotated])

lemma maintenancemode_quiet:
  assumes "maintenancemode_onbox h enable w = (r, w', evs)"
  shows "observations evs v = []" "discovered evs = []" "\<not> poweron_issued evs v"
    "autostarts evs = []"
    "set (kinds evs) \<subseteq> {if enable then KMMEnable else KMMDisable, KMMGet}"
proof -
  from maintenancemode_shape [OF assms] obtain out polls where
    evs: "evs = Cmd (if enable then mm_enable_cmd else mm_disable_cmd) out # polls"
    and polls: "set (kinds polls) \<subseteq> {KMMGet}"
    by blast
  from evs polls show k: "set (kinds evs) \<subseteq> {if enable then KMMEnable else KMMDisable, KMMGet}"
    by auto
  have "KSummary \<notin> set (kinds evs)" "KGetAllVms \<notin> set (kinds evs)" "KPowerOn \<notin> set (kinds evs)"
    "KAutostart \<notin> set (kinds evs)"
    using k by (auto split: if_splits)
  then show "observations evs v = []" "discovered evs = []" "\<not> poweron_issued evs v"
    "autostarts evs = []"
    by (simp_all add: observations_none discovered_none poweron_issued_none autostarts_none)
qed

lemma repower_quiet:
  assumes "repower_vms h vms w = (r, w', evs)"
  shows "mm_reads evs = []" "discovered evs = []" "autostarts evs = []"
    "k' \<notin> {KSummary, KPowerOn} \<Longrightarrow> k' \<notin> set (kinds evs)"
  using repower_kinds [OF assms]
  by (auto intro!: mm_reads_none discovered_none autostarts_none)

section \<open>Power-on commands\<close>

lemma no_kind_no_event: "k \<notin> set (kinds es) \<Longrightarrow> es = pre @ Cmd c out # post \<Longrightarrow> kind_of c \<noteq> k"
  by auto

text \<open>A trace that ends with the rollback loop.\<close>

lemma tail_guard:
  assumes "repower_vms h vms w = (r, w', evr)" and "KPowerOn \<notin> set (kinds a)"
    and "a @ evr = pre @ Cmd (power_on_cmd v) out # post"
  shows "\<exists>pre' out'. pre = pre' @ [Cmd (get_summary_cmd v) out'] \<and> read_power out' = Inr ''poweredOff''"
proof -
  from split_after [OF assms(3)] assms(2) obtain p where
    p: "pre = a @ p" "evr = p @ Cmd (power_on_cmd v) out # post"
    by auto
  from repower_guard [OF assms(1) p(2)] p(1) show ?thesis by auto
qed

lemma tail_partial:
  assumes "repower_vms h vms w = (r, w', evr)" and "distinct vms" and "KPowerOn \<notin> set (kinds a)"
    and "poweron_issued (a @ evr) v"
  shows "latest_state (a @ evr) v = Some (Inr ''poweredOff'')"
proof -
  from assms(3,4) have "poweron_issued evr v"
    by (auto dest: poweron_issued_none)
  from repower_partial [OF assms(1,2) this] show ?thesis
    by (rule latest_state_last)
qed

lemma tail_complete:
  assumes "repower_vms h vms w = (Inr (), w', evr)" and "distinct vms" and "KPowerOn \<notin> set (kinds a)"
    and "v \<in> set vms"
  shows "\<exists>x. latest_state (a @ evr) v = Some x
    \<and> (poweron_issued (a @ evr) v \<longleftrightarrow> x = Inr ''poweredOff'')"
proof -
  from repower_complete [OF assms(1,2,4)] obtain x where
    x: "observations evr v = [x]" "poweron_issued evr v \<longleftrightarrow> x = Inr ''poweredOff''"
    by blast
  from assms(3) have "\<not> poweron_issued a v" by (rule poweron_issued_none)
  with x latest_state_last [OF x(1), of a] show ?thesis by simp
qed

lemma no_poweron_trace:
  assumes "KPowerOn \<notin> set (kinds es)"
  shows "es \<noteq> pre @ Cmd (power_on_cmd v) out # post" and "\<not> poweron_issued es v"
  using assms by (auto dest: poweron_issued_none)

lemma rollback_guarded:
  assumes "repower_vms h vms w = (r, w', evr)" and "distinct vms" and "KPowerOn \<notin> set (kinds a)"
    and "evs = a @ evr"
  shows "(\<forall>pre v out post. evs = pre @ Cmd (power_on_cmd v) out # post \<longrightarrow>
      (\<exists>pre' out'. pre = pre' @ [Cmd (get_summary_cmd v) out'] \<and> read_power out' = Inr ''poweredOff''))
   \<and> (\<forall>v. poweron_issued evs v \<longrightarrow> latest_state evs v = Some (Inr ''poweredOff''))"
  unfolding assms(4)
proof (intro conjI allI impI)
  fix pre v out post
  assume "a @ evr = pre @ Cmd (power_on_cmd v) out # post"
  from tail_guard [OF assms(1,3) this]
  show "\<exists>pre' out'. pre = pre' @ [Cmd (get_summary_cmd v) out'] \<and> read_power out' = Inr ''poweredOff''" .
next
  fix v
  assume "poweron_issued (a @ evr) v"
  from tail_partial [OF assms(1,2,3) this]
  show "latest_state (a @ evr) v = Some (Inr ''poweredOff'')" .
qed

lemma no_poweron_guarded:
  assumes "KPowerOn \<notin> set (kinds evs)"
  shows "(\<forall>pre v out post. evs = pre @ Cmd (power_on_cmd v) out # post \<longrightarrow>
      (\<exists>pre' out'. pre = pre' @ [Cmd (get_summary_cmd v) out'] \<and> read_power out' = Inr ''poweredOff''))
   \<and> (\<forall>v. poweron_issued evs v \<longrightarrow> latest_state evs v = Some (Inr ''poweredOff''))"
  using no_poweron_trace [OF assms] by blast

text \<open>The kinds of the commands before the rollback, on the two paths that have one.\<close>

lemma before_rollback:
  assumes "quiesce_vms h vms k wq = (rq, wq', evq)"
    and "maintenancemode_onbox h True wq' = (rm, wm, evm)"
  shows "KPowerOn \<notin> set (kinds (prologue o1 o2 o3 o4 o5 @ evq @ evm))"
    and "maintenancemode_onbox h False wu = (rx, wx, evx) \<Longrightarrow>
      KPowerOn \<notin> set (kinds ((prologue o1 o2 o3 o4 o5 @ evq @ evm) @ Cmd (upgrade_cmd p) resp # evx))"
proof -
  from quiesce_kinds [OF assms(1)] maintenancemode_quiet(5) [OF assms(2)]
  show a: "KPowerOn \<notin> set (kinds (prologue o1 o2 o3 o4 o5 @ evq @ evm))"
    by auto
  assume "maintenancemode_onbox h False wu = (rx, wx, evx)"
  from maintenancemode_quiet(5) [OF this] a
  show "KPowerOn \<notin> set (kinds ((prologue o1 o2 o3 o4 o5 @ evq @ evm) @ Cmd (upgrade_cmd p) resp # evx))"
    by auto
qed

text \<open>
  C10. In a run of \<^verbatim>\<open>main\<close>, every power-on command comes right after a power-state query
  of the same VM whose output reads exactly poweredOff, and a VM for which a power-on is
  issued has poweredOff as its latest reading; so a VM whose latest reading is unknown gets
  no power-on, whatever its reading at discovery was.
\<close>

theorem poweron_only_after_powered_off:
  "(\<forall>pre v out post. trace_of (main h) w = pre @ Cmd (power_on_cmd v) out # post \<longrightarrow>
      (\<exists>pre' out'. pre = pre' @ [Cmd (get_summary_cmd v) out'] \<and> read_power out' = Inr ''poweredOff''))
   \<and> (\<forall>v. poweron_issued (trace_of (main h) w) v \<longrightarrow>
         latest_state (trace_of (main h) w) v = Some (Inr ''poweredOff''))
   \<and> (\<forall>v. latest_state (trace_of (main h) w) v = Some (Inr ''unknown'') \<longrightarrow>
         \<not> poweron_issued (trace_of (main h) w) v)"
proof -
  obtain r w' evs where run: "main h w = (r, w', evs)"
    by (cases "main h w") auto
  then have tr: "trace_of (main h) w = evs" by (rule trace_of_eq)
  have "(\<forall>pre v out post. evs = pre @ Cmd (power_on_cmd v) out # post \<longrightarrow>
      (\<exists>pre' out'. pre = pre' @ [Cmd (get_summary_cmd v) out'] \<and> read_power out' = Inr ''poweredOff''))
   \<and> (\<forall>v. poweron_issued evs v \<longrightarrow> latest_state evs v = Some (Inr ''poweredOff''))"
    using run
  proof (cases rule: main_cases)
    case (not_found o1 o2)
    then have "KPowerOn \<notin> set (kinds evs)" by simp
    then show ?thesis by (rule no_poweron_guarded)
  next
    case (quiesce_raised o1 o2 o3 o4 o5 wq e evq)
    with quiesce_kinds [OF quiesce_raised(2)] have "KPowerOn \<notin> set (kinds evs)" by auto
    then show ?thesis by (rule no_poweron_guarded)
  next
    case (mm_failed o1 o2 o3 o4 o5 wq wq' evq wm evm rr evr)
    note a = before_rollback(1) [OF mm_failed(2,3), of o1 o2 o3 o4 o5]
    from mm_failed(6) have evs: "evs = (prologue o1 o2 o3 o4 o5 @ evq @ evm) @ evr" by simp
    from mm_failed(4) parse_vms_keys(1) a evs show ?thesis by (rule rollback_guarded)
  next
    case (rebooted o1 o2 o3 o4 o5 wq wq' evq wm evm resp wu b wx evx o6)
    from before_rollback(2) [OF rebooted(2,3,5), of o1 o2 o3 o4 o5] rebooted(7)
    have "KPowerOn \<notin> set (kinds evs)" by simp
    then show ?thesis by (rule no_poweron_guarded)
  next
    case (rolled_back o1 o2 o3 o4 o5 wq wq' evq wm evm resp wu b wx evx rr evr)
    let ?a = "(prologue o1 o2 o3 o4 o5 @ evq @ evm)
      @ Cmd (upgrade_cmd (py_strip o1 @ ''/'' @ UPGRADE_FILENAME)) resp # evx"
    note a = before_rollback(2) [OF rolled_back(2,3,5), of o1 o2 o3 o4 o5]
    from rolled_back(8) have evs: "evs = ?a @ evr" by simp
    from rolled_back(6) parse_vms_keys(1) a evs show ?thesis by (rule rollback_guarded)
  qed
  with tr show ?thesis by auto
qed

section \<open>Scripted runs\<close>

lemma run_mm_timeout_eval:
  "main scripted run_mm_timeout = (Inl (SystemExit 2), [], trace_mm_timeout)"
  by code_simp

lemma run_mm_timeout_blind_eval:
  "main scripted run_mm_timeout_blind = (Inl (SystemExit 2), [], trace_mm_timeout_blind)"
  by code_simp

lemma run_two_vms_eval:
  "main scripted run_two_vms = (Inl (SystemExit 2), [], trace_two_vms)"
  by code_simp

lemma run_success_eval:
  "main scripted run_success = (Inr (), [], trace_success)"
  by code_simp

lemma run_no_reboot_eval:
  "main scripted run_no_reboot = (Inl (SystemExit 3), [], trace_no_reboot)"
  by code_simp

lemma run_no_reboot_blind_eval:
  "main scripted run_no_reboot_blind = (Inl (SystemExit 3), [], trace_no_reboot_blind)"
  by code_simp

lemma run_three_vms_eval:
  "main scripted run_three_vms = (Inr (), [], trace_three_vms)"
  by code_simp

lemma run_evals:
  "trace_of (main scripted) run_mm_timeout = trace_mm_timeout"
  "result_of (main scripted) run_mm_timeout = Inl (SystemExit 2)"
  "trace_of (main scripted) run_mm_timeout_blind = trace_mm_timeout_blind"
  "result_of (main scripted) run_mm_timeout_blind = Inl (SystemExit 2)"
  "trace_of (main scripted) run_two_vms = trace_two_vms"
  "result_of (main scripted) run_two_vms = Inl (SystemExit 2)"
  "trace_of (main scripted) run_success = trace_success"
  "result_of (main scripted) run_success = Inr ()"
  "trace_of (main scripted) run_no_reboot = trace_no_reboot"
  "result_of (main scripted) run_no_reboot = Inl (SystemExit 3)"
  "trace_of (main scripted) run_no_reboot_blind = trace_no_reboot_blind"
  "result_of (main scripted) run_no_reboot_blind = Inl (SystemExit 3)"
  "trace_of (main scripted) run_three_vms = trace_three_vms"
  "result_of (main scripted) run_three_vms = Inr ()"
  by (simp_all add: trace_of_def result_of_def run_mm_timeout_eval run_mm_timeout_blind_eval
      run_two_vms_eval run_success_eval run_no_reboot_eval run_no_reboot_blind_eval
      run_three_vms_eval)

lemma trace_mm_timeout_facts:
  "trace_mm_timeout = butlast trace_mm_timeout @ Cmd (power_on_cmd ''1'') [] # []"
  "poweron_issued trace_mm_timeout ''1''"
  "KMMEnable \<in> set (kinds trace_mm_timeout)"
  "''enabled'' \<notin> set (mm_reads trace_mm_timeout)"
  "discovered trace_mm_timeout = [''1'']"
  by code_simp+

lemma trace_mm_timeout_blind_facts:
  "latest_state trace_mm_timeout_blind ''1'' = Some (Inr ''unknown'')"
  by code_simp

theorem poweron_only_after_powered_off_witness:
  "(\<exists>pre' out'. butlast (trace_of (main scripted) run_mm_timeout)
        = pre' @ [Cmd (get_summary_cmd ''1'') out'] \<and> read_power out' = Inr ''poweredOff'')
   \<and> latest_state (trace_of (main scripted) run_mm_timeout) ''1'' = Some (Inr ''poweredOff'')
   \<and> \<not> poweron_issued (trace_of (main scripted) run_mm_timeout_blind) ''1''"
  using poweron_only_after_powered_off [of scripted run_mm_timeout]
    poweron_only_after_powered_off [of scripted run_mm_timeout_blind]
    trace_mm_timeout_facts(1,2) trace_mm_timeout_blind_facts
  unfolding run_evals
  by blast

section \<open>The outcome of the rollback\<close>

lemma Cmd_kind: "Cmd c out \<in> set es \<Longrightarrow> kind_of c \<in> set (kinds es)"
  by (auto dest!: Cmd_in_commands commands_kind)

lemma observations_command: "observations es v \<noteq> [] \<Longrightarrow> get_summary_cmd v \<in> set (commands es)"
  using observations_empty [of v es] by auto

lemma mm_enable_ne_get [simp]: "mm_enable_cmd \<noteq> mm_get_cmd"
  by (rule kind_neq) simp

lemma mm_disable_ne_get [simp]: "mm_disable_cmd \<noteq> mm_get_cmd"
  by (rule kind_neq) simp

lemma maintenancemode_reads:
  assumes "maintenancemode_onbox h enable w = (Inr b, w', evs)"
  shows "b \<longleftrightarrow> (if enable then ''enabled'' else ''disabled'') \<in> set (mm_reads evs)"
    and "length (mm_reads evs) \<le> (if enable then 45 else 5)"
    and "\<not> b \<Longrightarrow> length (mm_reads evs) = (if enable then 45 else 5)"
  using maintenancemode_shape [OF assms] by (auto split: if_splits)

text \<open>Only the index can fail in the loops.\<close>

lemma repower_raised:
  "repower_vms h vms w = (Inl e, w', evs) \<Longrightarrow> \<exists>v \<in> set vms. Inl e \<in> set (observations evs v)"
proof (induction vms arbitrary: w w' evs)
  case Nil
  then show ?case by (simp add: ret_def)
next
  case (Cons u rest)
  from Cons.prems show ?case
  proof (cases rule: repower_step)
    case raised
    then show ?thesis by auto
  next
    case (on out outp w1 es)
    from Cons.IH [OF on(2)] on(3) show ?thesis by auto
  next
    case (skip out s w1 es)
    from Cons.IH [OF skip(3)] skip(4) show ?thesis by auto
  qed
qed




text \<open>The rollback part of a trace that ends with the rollback loop.\<close>

lemma repower_events:
  "repower_vms h vms w = (r, w', evs) \<Longrightarrow> \<forall>e \<in> set evs. rollback_event e"
proof (induction vms arbitrary: w r w' evs)
  case Nil
  then show ?case by (simp add: ret_def)
next
  case (Cons u rest)
  from Cons.prems show ?case
  proof (cases rule: repower_step)
    case raised
    then show ?thesis by simp
  next
    case (on out outp w1 es)
    from Cons.IH [OF on(2)] on(3) show ?thesis by simp
  next
    case (skip out s w1 es)
    from Cons.IH [OF skip(3)] skip(4) show ?thesis by simp
  qed
qed

lemma repower_queries:
  "repower_vms h vms w = (Inr (), w', evs) \<Longrightarrow> state_queries evs = map get_summary_cmd vms"
proof (induction vms arbitrary: w w' evs)
  case Nil
  then show ?case by (simp add: ret_def state_queries_def)
next
  case (Cons u rest)
  from Cons.prems show ?case
  proof (cases rule: repower_step)
    case raised
    then show ?thesis by simp
  next
    case (on out outp w1 es)
    from Cons.IH [OF on(2)] on(3) show ?thesis by (simp add: state_queries_def)
  next
    case (skip out s w1 es)
    from Cons.IH [OF skip(3)] skip(4) show ?thesis by (simp add: state_queries_def)
  qed
qed

lemma rollback_part_tail:
  assumes "\<forall>e \<in> set b. rollback_event e" and "a \<noteq> []" and "\<not> rollback_event (last a)"
  shows "rollback_part (a @ b) = b"
proof -
  from assms(2) obtain a' x where a: "a = a' @ [x]"
    by (cases a rule: rev_cases) auto
  with assms(3) have x: "\<not> rollback_event x" by simp
  have "takeWhile rollback_event (rev b @ x # rev a') = rev b"
    using assms(1) x by (subst takeWhile_append2) auto
  then show ?thesis by (simp add: rollback_part_def a)
qed

lemma maintenancemode_last:
  assumes "maintenancemode_onbox h enable w = (r, w', evs)"
  shows "evs \<noteq> []" and "\<not> rollback_event (last (a @ evs))"
proof -
  from maintenancemode_shape [OF assms] show ne: "evs \<noteq> []" by auto
  have k: "KSummary \<notin> set (kinds evs)" "KPowerOn \<notin> set (kinds evs)"
    using maintenancemode_quiet(5) [OF assms] by (auto split: if_splits)
  from ne have "last evs \<in> set evs" by simp
  with k have "\<not> rollback_event (last evs)"
    by (cases "last evs") (auto dest: Cmd_kind)
  with ne show "\<not> rollback_event (last (a @ evs))" by simp
qed

text \<open>The rollback at the end of a trace, when it runs to its end or not.\<close>

lemma rollback_outcome:
  assumes "repower_vms h vms w = (rr, w', evr)" and "distinct vms" and "KPowerOn \<notin> set (kinds a)"
    and "r = (case rr of Inl e \<Rightarrow> Inl e | Inr _ \<Rightarrow> Inl (SystemExit n))"
    and "a \<noteq> []" and "\<not> rollback_event (last a)"
  shows "(r = Inl (SystemExit n) \<or> r = Inl IndexError)
    \<and> ((\<forall>v. Inl IndexError \<notin> set (observations (a @ evr) v)) \<longrightarrow> r = Inl (SystemExit n))
    \<and> (r = Inl (SystemExit n) \<longrightarrow>
          state_queries (rollback_part (a @ evr)) = map get_summary_cmd vms
          \<and> (\<forall>v \<in> set vms. \<exists>x. observations (rollback_part (a @ evr)) v = [x]
              \<and> (poweron_issued (a @ evr) v \<longleftrightarrow> x = Inr ''poweredOff'')))"
proof (cases rr)
  case (Inl e)
  with repower_result [OF assms(1)] have e: "e = IndexError" by simp
  from repower_raised [OF assms(1) [unfolded Inl]] e
  have "\<exists>v. Inl IndexError \<in> set (observations (a @ evr) v)" by auto
  with Inl e assms(4) show ?thesis by auto
next
  case (Inr u)
  with assms(1) have run: "repower_vms h vms w = (Inr (), w', evr)" by simp
  from Inr assms(4) have r: "r = Inl (SystemExit n)" by simp
  have part: "rollback_part (a @ evr) = evr"
    by (rule rollback_part_tail [OF repower_events [OF run] assms(5,6)])
  have "\<not> poweron_issued a v" for v
    using assms(3) by (rule poweron_issued_none)
  with repower_complete [OF run assms(2)] repower_queries [OF run] r part
  show ?thesis by simp
qed


section \<open>Failure of the entry into maintenance mode\<close>

text \<open>
  C3, as amended. When the entry into maintenance mode is attempted and none of its 45 polls
  reads enabled, the run issues no upgrade command and no reboot, and it ends with exit
  status 2 unless a power-state query raised. When it ends with status 2, the rollback, which
  is what the run does after the last poll, queries every discovered VM once, in the order of
  discovery, and a VM of the restore set is sent a power-on command exactly when that query
  reads poweredOff.
\<close>

theorem mm_timeout_rolls_back:
  assumes "KMMEnable \<in> set (kinds (trace_of (main h) w))"
    and "''enabled'' \<notin> set (mm_reads (trace_of (main h) w))"
  shows "KUpgrade \<notin> set (kinds (trace_of (main h) w))
    \<and> KReboot \<notin> set (kinds (trace_of (main h) w))
    \<and> length (mm_reads (trace_of (main h) w)) = 45
    \<and> (result_of (main h) w = Inl (SystemExit 2) \<or> result_of (main h) w = Inl IndexError)
    \<and> ((\<forall>v. Inl IndexError \<notin> set (observations (trace_of (main h) w) v))
          \<longrightarrow> result_of (main h) w = Inl (SystemExit 2))
    \<and> (result_of (main h) w = Inl (SystemExit 2) \<longrightarrow>
          state_queries (rollback_part (trace_of (main h) w))
              = map get_summary_cmd (discovered (trace_of (main h) w))
          \<and> (\<forall>v \<in> set (restore_set (trace_of (main h) w) (discovered (trace_of (main h) w))).
                \<exists>x. observations (rollback_part (trace_of (main h) w)) v = [x]
                  \<and> (poweron_issued (trace_of (main h) w) v \<longleftrightarrow> x = Inr ''poweredOff'')))"
proof -
  obtain r w' evs where run: "main h w = (r, w', evs)"
    by (cases "main h w") auto
  then have tr: "trace_of (main h) w = evs" and res: "result_of (main h) w = r"
    by (simp_all add: trace_of_def result_of_def)
  from run have "KUpgrade \<notin> set (kinds evs) \<and> KReboot \<notin> set (kinds evs)
    \<and> length (mm_reads evs) = 45
    \<and> (r = Inl (SystemExit 2) \<or> r = Inl IndexError)
    \<and> ((\<forall>v. Inl IndexError \<notin> set (observations evs v)) \<longrightarrow> r = Inl (SystemExit 2))
    \<and> (r = Inl (SystemExit 2) \<longrightarrow>
          state_queries (rollback_part evs) = map get_summary_cmd (discovered evs)
          \<and> (\<forall>v \<in> set (restore_set evs (discovered evs)).
                \<exists>x. observations (rollback_part evs) v = [x]
                  \<and> (poweron_issued evs v \<longleftrightarrow> x = Inr ''poweredOff'')))"
  proof (cases rule: main_cases)
    case (not_found o1 o2)
    with assms tr show ?thesis by simp
  next
    case (quiesce_raised o1 o2 o3 o4 o5 wq e evq)
    with assms(1) tr quiesce_kinds [OF quiesce_raised(2)] show ?thesis by auto
  next
    case (mm_failed o1 o2 o3 o4 o5 wq wq' evq wm evm rr evr)
    let ?a = "prologue o1 o2 o3 o4 o5 @ evq @ evm"
    note a = before_rollback(1) [OF mm_failed(2,3), of o1 o2 o3 o4 o5]
    from mm_failed(6) have evs: "evs = ?a @ evr" by simp
    have la: "?a \<noteq> []" "\<not> rollback_event (last ?a)"
      using maintenancemode_last(1) [OF mm_failed(3)] maintenancemode_last(2) [OF mm_failed(3), of "prologue o1 o2 o3 o4 o5 @ evq"]
      by simp_all
    have k: "KUpgrade \<notin> set (kinds evs)" "KReboot \<notin> set (kinds evs)"
      using evs quiesce_kinds [OF mm_failed(2)] maintenancemode_quiet(5) [OF mm_failed(3)]
        repower_kinds [OF mm_failed(4)]
      by auto
    have reads: "length (mm_reads evs) = 45"
      using evs maintenancemode_reads(3) [OF mm_failed(3)] quiesce_quiet(1) [OF mm_failed(2)]
        repower_quiet(1) [OF mm_failed(4)]
      by (simp add: prologue_quiet)
    have disc: "discovered evs = dict_keys (parse_vms o5)"
      using evs quiesce_quiet(2) [OF mm_failed(2)] maintenancemode_quiet(2) [OF mm_failed(3)]
        repower_quiet(2) [OF mm_failed(4)]
      by simp
    have sub: "set (restore_set evs vs) \<subseteq> set vs" for vs
      by (simp add: restore_set_def)
    from rollback_outcome [OF mm_failed(4) parse_vms_keys(1) a mm_failed(5) la] k reads sub
    show ?thesis unfolding evs [symmetric] disc by blast
  next
    case (rebooted o1 o2 o3 o4 o5 wq wq' evq wm evm resp wu b wx evx o6)
    from maintenancemode_reads(1) [OF rebooted(3)] have "''enabled'' \<in> set (mm_reads evm)"
      by simp
    with rebooted(7) assms(2) tr show ?thesis by simp
  next
    case (rolled_back o1 o2 o3 o4 o5 wq wq' evq wm evm resp wu b wx evx rr evr)
    from maintenancemode_reads(1) [OF rolled_back(3)] have "''enabled'' \<in> set (mm_reads evm)"
      by simp
    with rolled_back(8) assms(2) tr show ?thesis by simp
  qed
  then show ?thesis unfolding tr res .
qed

lemma trace_mm_timeout_rollback:
  "restore_set trace_mm_timeout [''1''] = [''1'']"
  "rollback_part trace_mm_timeout
     = [Cmd (get_summary_cmd ''1'') (summary_output ''poweredOff''), Cmd (power_on_cmd ''1'') []]"
  by code_simp+

theorem mm_timeout_rolls_back_witness:
  "KMMEnable \<in> set (kinds (trace_of (main scripted) run_mm_timeout))
   \<and> ''enabled'' \<notin> set (mm_reads (trace_of (main scripted) run_mm_timeout))
   \<and> KUpgrade \<notin> set (kinds (trace_of (main scripted) run_mm_timeout))
   \<and> length (mm_reads (trace_of (main scripted) run_mm_timeout)) = 45
   \<and> result_of (main scripted) run_mm_timeout = Inl (SystemExit 2)
   \<and> ''1'' \<in> set (restore_set (trace_of (main scripted) run_mm_timeout)
                    (discovered (trace_of (main scripted) run_mm_timeout)))
   \<and> state_queries (rollback_part (trace_of (main scripted) run_mm_timeout)) = [get_summary_cmd ''1'']
   \<and> (\<exists>x. observations (rollback_part (trace_of (main scripted) run_mm_timeout)) ''1'' = [x]
         \<and> (poweron_issued (trace_of (main scripted) run_mm_timeout) ''1'' \<longleftrightarrow> x = Inr ''poweredOff''))"
proof -
  have h: "KMMEnable \<in> set (kinds (trace_of (main scripted) run_mm_timeout))"
    "''enabled'' \<notin> set (mm_reads (trace_of (main scripted) run_mm_timeout))"
    by (simp_all add: run_evals trace_mm_timeout_facts(3,4))
  have d: "discovered (trace_of (main scripted) run_mm_timeout) = [''1'']"
    by (simp add: run_evals trace_mm_timeout_facts(5))
  have m: "''1'' \<in> set (restore_set (trace_of (main scripted) run_mm_timeout)
                    (discovered (trace_of (main scripted) run_mm_timeout)))"
    by (simp add: run_evals trace_mm_timeout_facts(5) trace_mm_timeout_rollback(1))
  from mm_timeout_rolls_back [OF h] h run_evals(2) m
  have "KUpgrade \<notin> set (kinds (trace_of (main scripted) run_mm_timeout))
   \<and> length (mm_reads (trace_of (main scripted) run_mm_timeout)) = 45
   \<and> state_queries (rollback_part (trace_of (main scripted) run_mm_timeout))
       = map get_summary_cmd (discovered (trace_of (main scripted) run_mm_timeout))
   \<and> (\<exists>x. observations (rollback_part (trace_of (main scripted) run_mm_timeout)) ''1'' = [x]
         \<and> (poweron_issued (trace_of (main scripted) run_mm_timeout) ''1'' \<longleftrightarrow> x = Inr ''poweredOff''))"
    by blast
  with h m run_evals(2) show ?thesis unfolding d by simp
qed

lemma trace_mm_timeout_blind_rollback:
  "rollback_part trace_mm_timeout_blind = [Cmd (get_summary_cmd ''1'') []]"
  "observations (rollback_part trace_mm_timeout_blind) ''1'' = [Inr ''unknown'']"
  by code_simp+

theorem mm_timeout_counterexample:
  "KMMEnable \<in> set (kinds (trace_of (main scripted) run_mm_timeout_blind))
   \<and> ''enabled'' \<notin> set (mm_reads (trace_of (main scripted) run_mm_timeout_blind))
   \<and> result_of (main scripted) run_mm_timeout_blind = Inl (SystemExit 2)
   \<and> restore_set (trace_of (main scripted) run_mm_timeout_blind)
         (discovered (trace_of (main scripted) run_mm_timeout_blind)) = [''1'']
   \<and> observations (rollback_part (trace_of (main scripted) run_mm_timeout_blind)) ''1''
       = [Inr ''unknown'']
   \<and> \<not> poweron_issued (trace_of (main scripted) run_mm_timeout_blind) ''1''"
  unfolding run_evals by code_simp

section \<open>The rollback and the restore set\<close>






section \<open>The verdict on the upgrade\<close>

lemma only_upgrade:
  assumes "Cmd c out \<in> set (a @ Cmd (upgrade_cmd p) resp # b)" and "kind_of c = KUpgrade"
    and "KUpgrade \<notin> set (kinds a)" and "KUpgrade \<notin> set (kinds b)"
  shows "out = resp"
  using assms by (auto dest: Cmd_kind)

lemma no_upgrade:
  assumes "KUpgrade \<notin> set (kinds es)"
  shows "\<not> (Cmd c out \<in> set es \<and> kind_of c = KUpgrade)"
  using assms by (auto dest: Cmd_kind)

text \<open>
  C2, as amended. A run issues the reboot command if and only if it has issued the upgrade
  command and its output contains both markers. When the output of the upgrade command
  lacks a marker, the run issues the command that leaves maintenance mode and no reboot, and
  it ends with exit status 3 unless a power-state query raised. When it ends with status 3,
  the rollback, which is what the run does after the last maintenance-mode poll, queries
  every discovered VM once, in the order of discovery, and a VM of the restore set is sent a
  power-on command exactly when that query reads poweredOff.
\<close>

theorem reboot_iff_both_markers:
  "(KReboot \<in> set (kinds (trace_of (main h) w)) \<longleftrightarrow>
      (\<exists>c resp. Cmd c resp \<in> set (trace_of (main h) w) \<and> kind_of c = KUpgrade
         \<and> py_in ''The update completed successfully'' resp \<and> py_in ''Reboot Required: true'' resp))
   \<and> (\<forall>c resp. Cmd c resp \<in> set (trace_of (main h) w) \<and> kind_of c = KUpgrade
         \<and> \<not> (py_in ''The update completed successfully'' resp \<and> py_in ''Reboot Required: true'' resp)
       \<longrightarrow> KMMDisable \<in> set (kinds (trace_of (main h) w))
         \<and> KReboot \<notin> set (kinds (trace_of (main h) w))
         \<and> (result_of (main h) w = Inl (SystemExit 3) \<or> result_of (main h) w = Inl IndexError)
         \<and> ((\<forall>v. Inl IndexError \<notin> set (observations (trace_of (main h) w) v))
               \<longrightarrow> result_of (main h) w = Inl (SystemExit 3))
         \<and> (result_of (main h) w = Inl (SystemExit 3) \<longrightarrow>
               state_queries (rollback_part (trace_of (main h) w))
                 = map get_summary_cmd (discovered (trace_of (main h) w))
               \<and> (\<forall>v \<in> set (restore_set (trace_of (main h) w) (discovered (trace_of (main h) w))).
                  \<exists>x. observations (rollback_part (trace_of (main h) w)) v = [x]
                    \<and> (poweron_issued (trace_of (main h) w) v \<longleftrightarrow> x = Inr ''poweredOff''))))"
proof -
  obtain r w' evs where run: "main h w = (r, w', evs)"
    by (cases "main h w") auto
  then have tr: "trace_of (main h) w = evs" and res: "result_of (main h) w = r"
    by (simp_all add: trace_of_def result_of_def)
  let ?lacks = "\<lambda>resp. \<not> (py_in ''The update completed successfully'' resp
      \<and> py_in ''Reboot Required: true'' resp)"
  let ?rolled = "KMMDisable \<in> set (kinds evs) \<and> KReboot \<notin> set (kinds evs)
         \<and> (r = Inl (SystemExit 3) \<or> r = Inl IndexError)
         \<and> ((\<forall>v. Inl IndexError \<notin> set (observations evs v)) \<longrightarrow> r = Inl (SystemExit 3))
         \<and> (r = Inl (SystemExit 3) \<longrightarrow>
               state_queries (rollback_part evs) = map get_summary_cmd (discovered evs)
               \<and> (\<forall>v \<in> set (restore_set evs (discovered evs)).
                  \<exists>x. observations (rollback_part evs) v = [x]
                    \<and> (poweron_issued evs v \<longleftrightarrow> x = Inr ''poweredOff'')))"
  have none: "(KReboot \<in> set (kinds evs) \<longleftrightarrow>
      (\<exists>c resp. Cmd c resp \<in> set evs \<and> kind_of c = KUpgrade \<and> \<not> ?lacks resp))
    \<and> (\<forall>c resp. Cmd c resp \<in> set evs \<and> kind_of c = KUpgrade \<and> ?lacks resp \<longrightarrow> ?rolled)"
    if "KUpgrade \<notin> set (kinds evs)" "KReboot \<notin> set (kinds evs)"
    using that no_upgrade [OF that(1)] by blast
  from run have "(KReboot \<in> set (kinds evs) \<longleftrightarrow>
      (\<exists>c resp. Cmd c resp \<in> set evs \<and> kind_of c = KUpgrade \<and> \<not> ?lacks resp))
    \<and> (\<forall>c resp. Cmd c resp \<in> set evs \<and> kind_of c = KUpgrade \<and> ?lacks resp \<longrightarrow> ?rolled)"
  proof (cases rule: main_cases)
    case (not_found o1 o2)
    then show ?thesis by (intro none) simp_all
  next
    case (quiesce_raised o1 o2 o3 o4 o5 wq e evq)
    with quiesce_kinds [OF quiesce_raised(2)] show ?thesis by (intro none) auto
  next
    case (mm_failed o1 o2 o3 o4 o5 wq wq' evq wm evm rr evr)
    with quiesce_kinds [OF mm_failed(2)] maintenancemode_quiet(5) [OF mm_failed(3)]
      repower_kinds [OF mm_failed(4)]
    show ?thesis by (intro none) auto
  next
    case (rebooted o1 o2 o3 o4 o5 wq wq' evq wm evm resp wu b wx evx o6)
    let ?up = "upgrade_cmd (py_strip o1 @ ''/'' @ UPGRADE_FILENAME)"
    let ?a = "prologue o1 o2 o3 o4 o5 @ evq @ evm"
    let ?b = "evx @ [Cmd reboot_cmd o6]"
    from rebooted(7) have evs: "evs = ?a @ Cmd ?up resp # ?b" by simp
    have ka: "KUpgrade \<notin> set (kinds ?a)" and kb: "KUpgrade \<notin> set (kinds ?b)"
      using quiesce_kinds [OF rebooted(2)] maintenancemode_quiet(5) [OF rebooted(3)]
        maintenancemode_quiet(5) [OF rebooted(5)]
      by auto
    have good: "\<not> ?lacks resp"
      using rebooted(4) by (simp add: upgrade_succeeded_def)
    have "KReboot \<in> set (kinds evs)" using evs by simp
    moreover have "Cmd ?up resp \<in> set evs \<and> kind_of ?up = KUpgrade"
      using evs by simp
    moreover have "\<not> ?lacks out" if "Cmd c out \<in> set evs" "kind_of c = KUpgrade" for c out
      using only_upgrade [OF that(1) [unfolded evs] that(2) ka kb] good by simp
    ultimately show ?thesis by blast
  next
    case (rolled_back o1 o2 o3 o4 o5 wq wq' evq wm evm resp wu b wx evx rr evr)
    let ?up = "upgrade_cmd (py_strip o1 @ ''/'' @ UPGRADE_FILENAME)"
    let ?a = "prologue o1 o2 o3 o4 o5 @ evq @ evm"
    let ?b = "evx @ evr"
    let ?front = "?a @ Cmd ?up resp # evx"
    from rolled_back(8) have evs: "evs = ?a @ Cmd ?up resp # ?b" and evs': "evs = ?front @ evr"
      by simp_all
    have la: "?front \<noteq> []" "\<not> rollback_event (last ?front)"
      using maintenancemode_last(1) [OF rolled_back(5)]
        maintenancemode_last(2) [OF rolled_back(5), of "?a @ [Cmd ?up resp]"]
      by simp_all
    have ka: "KUpgrade \<notin> set (kinds ?a)" and kb: "KUpgrade \<notin> set (kinds ?b)"
      using quiesce_kinds [OF rolled_back(2)] maintenancemode_quiet(5) [OF rolled_back(3)]
        maintenancemode_quiet(5) [OF rolled_back(5)] repower_kinds [OF rolled_back(6)]
      by auto
    have bad: "?lacks resp"
      using rolled_back(4) by (simp add: upgrade_succeeded_def)
    have nr: "KReboot \<notin> set (kinds evs)"
      using evs quiesce_kinds [OF rolled_back(2)] maintenancemode_quiet(5) [OF rolled_back(3)]
        maintenancemode_quiet(5) [OF rolled_back(5)] repower_kinds [OF rolled_back(6)]
      by auto
    have dis: "KMMDisable \<in> set (kinds evs)"
      using evs maintenancemode_shape [OF rolled_back(5)] by auto
    have disc: "discovered evs = dict_keys (parse_vms o5)"
    proof -
      have "upgrade_cmd p \<noteq> getallvms_cmd" for p by (rule kind_neq) simp
      with evs quiesce_quiet(2) [OF rolled_back(2)] maintenancemode_quiet(2) [OF rolled_back(3)]
        maintenancemode_quiet(2) [OF rolled_back(5)] repower_quiet(2) [OF rolled_back(6)]
      show ?thesis by simp
    qed
    have a: "KPowerOn \<notin> set (kinds ?front)"
      by (rule before_rollback(2) [OF rolled_back(2,3,5)])
    have sub: "set (restore_set evs vs) \<subseteq> set vs" for vs
      by (simp add: restore_set_def)
    from rollback_outcome [OF rolled_back(6) parse_vms_keys(1) a rolled_back(7) la] dis nr sub
    have rolled: ?rolled unfolding evs' [symmetric] disc by blast
    have "?lacks out" if "Cmd c out \<in> set evs" "kind_of c = KUpgrade" for c out
      using only_upgrade [OF that(1) [unfolded evs] that(2) ka kb] bad by simp
    with nr rolled show ?thesis by blast
  qed
  then show ?thesis unfolding tr res by blast
qed

lemma trace_success_facts:
  "Cmd (upgrade_cmd (''/vmfs/volumes/datastore1/upgrade/'' @ UPGRADE_FILENAME)) upgrade_ok_output
     \<in> set trace_success"
  "py_in ''The update completed successfully'' upgrade_ok_output"
  "py_in ''Reboot Required: true'' upgrade_ok_output"
  by code_simp+

lemma trace_no_reboot_facts:
  "Cmd (upgrade_cmd (''/vmfs/volumes/datastore1/upgrade/'' @ UPGRADE_FILENAME)) upgrade_noreboot_output
     \<in> set trace_no_reboot"
  "\<not> py_in ''Reboot Required: true'' upgrade_noreboot_output"
  "discovered trace_no_reboot = [''1'']"
  "restore_set trace_no_reboot [''1''] = [''1'']"
  by code_simp+

theorem reboot_iff_both_markers_witness:
  "KReboot \<in> set (kinds (trace_of (main scripted) run_success))
   \<and> KMMDisable \<in> set (kinds (trace_of (main scripted) run_no_reboot))
   \<and> KReboot \<notin> set (kinds (trace_of (main scripted) run_no_reboot))
   \<and> result_of (main scripted) run_no_reboot = Inl (SystemExit 3)
   \<and> ''1'' \<in> set (restore_set (trace_of (main scripted) run_no_reboot)
                    (discovered (trace_of (main scripted) run_no_reboot)))
   \<and> state_queries (rollback_part (trace_of (main scripted) run_no_reboot))
       = map get_summary_cmd (discovered (trace_of (main scripted) run_no_reboot))
   \<and> (\<exists>x. observations (rollback_part (trace_of (main scripted) run_no_reboot)) ''1'' = [x]
         \<and> (poweron_issued (trace_of (main scripted) run_no_reboot) ''1'' \<longleftrightarrow> x = Inr ''poweredOff''))"
proof -
  let ?up = "upgrade_cmd (''/vmfs/volumes/datastore1/upgrade/'' @ UPGRADE_FILENAME)"
  have ok: "Cmd ?up upgrade_ok_output \<in> set (trace_of (main scripted) run_success)
      \<and> kind_of ?up = KUpgrade
      \<and> py_in ''The update completed successfully'' upgrade_ok_output
      \<and> py_in ''Reboot Required: true'' upgrade_ok_output"
    unfolding run_evals using trace_success_facts kind_upgrade by blast
  have bad: "Cmd ?up upgrade_noreboot_output \<in> set (trace_of (main scripted) run_no_reboot)
      \<and> kind_of ?up = KUpgrade
      \<and> \<not> (py_in ''The update completed successfully'' upgrade_noreboot_output
           \<and> py_in ''Reboot Required: true'' upgrade_noreboot_output)"
    unfolding run_evals using trace_no_reboot_facts(1,2) kind_upgrade by blast
  have d: "''1'' \<in> set (restore_set (trace_of (main scripted) run_no_reboot)
                    (discovered (trace_of (main scripted) run_no_reboot)))"
    by (simp add: run_evals trace_no_reboot_facts(3,4))
  from reboot_iff_both_markers [of scripted run_success] ok
  have "KReboot \<in> set (kinds (trace_of (main scripted) run_success))" by blast
  moreover from reboot_iff_both_markers [of scripted run_no_reboot] bad run_evals(10) d
  have "KMMDisable \<in> set (kinds (trace_of (main scripted) run_no_reboot))
   \<and> KReboot \<notin> set (kinds (trace_of (main scripted) run_no_reboot))
   \<and> state_queries (rollback_part (trace_of (main scripted) run_no_reboot))
       = map get_summary_cmd (discovered (trace_of (main scripted) run_no_reboot))
   \<and> (\<exists>x. observations (rollback_part (trace_of (main scripted) run_no_reboot)) ''1'' = [x]
         \<and> (poweron_issued (trace_of (main scripted) run_no_reboot) ''1'' \<longleftrightarrow> x = Inr ''poweredOff''))"
    by blast
  ultimately show ?thesis using run_evals(10) d by blast
qed

theorem no_reboot_counterexample:
  "Cmd (upgrade_cmd (''/vmfs/volumes/datastore1/upgrade/'' @ UPGRADE_FILENAME)) upgrade_noreboot_output
     \<in> set (trace_of (main scripted) run_no_reboot_blind)
   \<and> \<not> py_in ''Reboot Required: true'' upgrade_noreboot_output
   \<and> result_of (main scripted) run_no_reboot_blind = Inl (SystemExit 3)
   \<and> restore_set (trace_of (main scripted) run_no_reboot_blind)
         (discovered (trace_of (main scripted) run_no_reboot_blind)) = [''1'']
   \<and> observations (rollback_part (trace_of (main scripted) run_no_reboot_blind)) ''1''
       = [Inr ''unknown'']
   \<and> \<not> poweron_issued (trace_of (main scripted) run_no_reboot_blind) ''1''"
  unfolding run_evals by code_simp

section \<open>Leaving maintenance mode\<close>

lemma split_first:
  assumes "Cmd c out0 # b = pre @ Cmd c' out # post" and "kind_of c' \<notin> set (kinds b)"
  shows "pre = [] \<and> out0 = out \<and> post = b"
proof (cases pre)
  case Nil
  with assms(1) show ?thesis by simp
next
  case (Cons p pre')
  with assms(1) have "Cmd c' out \<in> set b" by auto
  from Cmd_kind [OF this] assms(2) show ?thesis by simp
qed

text \<open>
  C6. When a run issues the command that leaves maintenance mode, it is right after the
  upgrade command; at most five polls follow, and whatever they read (when none reads
  disabled, all five were made) the run goes on: with both markers in the upgrade output the
  next and last command is the reboot and the run returns; otherwise the rollback follows at
  once, starting with the query of the first discovered VM.
\<close>

theorem mm_exit_timeout_not_fatal:
  assumes "trace_of (main h) w = pre @ Cmd mm_disable_cmd out # post"
  shows "\<exists>c resp pre0 polls rest.
       pre = pre0 @ [Cmd c resp] \<and> kind_of c = KUpgrade
     \<and> post = polls @ rest \<and> set (kinds polls) \<subseteq> {KMMGet} \<and> length (mm_reads polls) \<le> 5
     \<and> (''disabled'' \<notin> set (mm_reads polls) \<longrightarrow> length (mm_reads polls) = 5)
     \<and> (if upgrade_succeeded resp
         then (\<exists>out'. rest = [Cmd reboot_cmd out']) \<and> result_of (main h) w = Inr ()
         else set (kinds rest) \<subseteq> {KSummary, KPowerOn}
           \<and> (result_of (main h) w = Inl (SystemExit 3) \<or> result_of (main h) w = Inl IndexError)
           \<and> (\<forall>v vs. discovered (trace_of (main h) w) = v # vs \<longrightarrow>
                 (\<exists>out' tl. rest = Cmd (get_summary_cmd v) out' # tl))
           \<and> (result_of (main h) w = Inl (SystemExit 3) \<longrightarrow>
                 (\<forall>v \<in> set (discovered (trace_of (main h) w)). get_summary_cmd v \<in> set (commands rest))))"
proof -
  obtain r w' evs where run: "main h w = (r, w', evs)"
    by (cases "main h w") auto
  then have tr: "trace_of (main h) w = evs" and res: "result_of (main h) w = r"
    by (simp_all add: trace_of_def result_of_def)
  from assms tr have split: "evs = pre @ Cmd mm_disable_cmd out # post" by simp
  have absurd: False if "KMMDisable \<notin> set (kinds evs)"
    using no_kind_no_event [OF that split] by simp
  from run have "\<exists>c resp pre0 polls rest.
       pre = pre0 @ [Cmd c resp] \<and> kind_of c = KUpgrade
     \<and> post = polls @ rest \<and> set (kinds polls) \<subseteq> {KMMGet} \<and> length (mm_reads polls) \<le> 5
     \<and> (''disabled'' \<notin> set (mm_reads polls) \<longrightarrow> length (mm_reads polls) = 5)
     \<and> (if upgrade_succeeded resp
         then (\<exists>out'. rest = [Cmd reboot_cmd out']) \<and> r = Inr ()
         else set (kinds rest) \<subseteq> {KSummary, KPowerOn}
           \<and> (r = Inl (SystemExit 3) \<or> r = Inl IndexError)
           \<and> (\<forall>v vs. discovered evs = v # vs \<longrightarrow>
                 (\<exists>out' tl. rest = Cmd (get_summary_cmd v) out' # tl))
           \<and> (r = Inl (SystemExit 3) \<longrightarrow>
                 (\<forall>v \<in> set (discovered evs). get_summary_cmd v \<in> set (commands rest))))"
  proof (cases rule: main_cases)
    case (not_found o1 o2)
    then have "KMMDisable \<notin> set (kinds evs)" by simp
    then show ?thesis using absurd by simp
  next
    case (quiesce_raised o1 o2 o3 o4 o5 wq e evq)
    with quiesce_kinds [OF quiesce_raised(2)] have "KMMDisable \<notin> set (kinds evs)" by auto
    then show ?thesis using absurd by simp
  next
    case (mm_failed o1 o2 o3 o4 o5 wq wq' evq wm evm rr evr)
    with quiesce_kinds [OF mm_failed(2)] maintenancemode_quiet(5) [OF mm_failed(3)]
      repower_kinds [OF mm_failed(4)]
    have "KMMDisable \<notin> set (kinds evs)" by auto
    then show ?thesis using absurd by simp
  next
    case (rebooted o1 o2 o3 o4 o5 wq wq' evq wm evm resp wu b wx evx o6)
    let ?up = "Cmd (upgrade_cmd (py_strip o1 @ ''/'' @ UPGRADE_FILENAME)) resp"
    let ?a = "prologue o1 o2 o3 o4 o5 @ evq @ evm @ [?up]"
    from maintenancemode_shape [OF rebooted(5)] obtain out0 polls where
      evx: "evx = Cmd mm_disable_cmd out0 # polls" and polls: "set (kinds polls) \<subseteq> {KMMGet}"
      and len: "length (mm_reads polls) \<le> 5"
      and timeout: "\<not> b \<longrightarrow> length (mm_reads polls) = 5"
      and b: "b \<longleftrightarrow> ''disabled'' \<in> set (mm_reads polls)"
      by auto
    have ka: "kind_of mm_disable_cmd \<notin> set (kinds ?a)"
      using quiesce_kinds [OF rebooted(2)] maintenancemode_quiet(5) [OF rebooted(3)] by auto
    from rebooted(7) split evx
    have "?a @ (Cmd mm_disable_cmd out0 # polls @ [Cmd reboot_cmd o6]) = pre @ Cmd mm_disable_cmd out # post"
      by simp
    from split_after [OF this ka] obtain p where
      p: "pre = ?a @ p" "Cmd mm_disable_cmd out0 # polls @ [Cmd reboot_cmd o6] = p @ Cmd mm_disable_cmd out # post"
      by blast
    have "kind_of mm_disable_cmd \<notin> set (kinds (polls @ [Cmd reboot_cmd o6]))"
      using polls by auto
    from split_first [OF p(2) this] p(1)
    have "pre = (prologue o1 o2 o3 o4 o5 @ evq @ evm) @ [?up]" "post = polls @ [Cmd reboot_cmd o6]"
      by simp_all
    with polls len timeout b rebooted(4,6) show ?thesis
      by (intro exI [of _ "upgrade_cmd (py_strip o1 @ ''/'' @ UPGRADE_FILENAME)"] exI [of _ resp]
          exI [of _ "prologue o1 o2 o3 o4 o5 @ evq @ evm"] exI [of _ polls]
          exI [of _ "[Cmd reboot_cmd o6]"]) simp
  next
    case (rolled_back o1 o2 o3 o4 o5 wq wq' evq wm evm resp wu b wx evx rr evr)
    let ?up = "Cmd (upgrade_cmd (py_strip o1 @ ''/'' @ UPGRADE_FILENAME)) resp"
    let ?a = "prologue o1 o2 o3 o4 o5 @ evq @ evm @ [?up]"
    from maintenancemode_shape [OF rolled_back(5)] obtain out0 polls where
      evx: "evx = Cmd mm_disable_cmd out0 # polls" and polls: "set (kinds polls) \<subseteq> {KMMGet}"
      and len: "length (mm_reads polls) \<le> 5"
      and timeout: "\<not> b \<longrightarrow> length (mm_reads polls) = 5"
      and b: "b \<longleftrightarrow> ''disabled'' \<in> set (mm_reads polls)"
      by auto
    have ka: "kind_of mm_disable_cmd \<notin> set (kinds ?a)"
      using quiesce_kinds [OF rolled_back(2)] maintenancemode_quiet(5) [OF rolled_back(3)] by auto
    from rolled_back(8) split evx
    have "?a @ (Cmd mm_disable_cmd out0 # polls @ evr) = pre @ Cmd mm_disable_cmd out # post"
      by simp
    from split_after [OF this ka] obtain p where
      p: "pre = ?a @ p" "Cmd mm_disable_cmd out0 # polls @ evr = p @ Cmd mm_disable_cmd out # post"
      by blast
    have "kind_of mm_disable_cmd \<notin> set (kinds (polls @ evr))"
      using polls repower_kinds [OF rolled_back(6)] by auto
    from split_first [OF p(2) this] p(1)
    have pp: "pre = (prologue o1 o2 o3 o4 o5 @ evq @ evm) @ [?up]" "post = polls @ evr"
      by simp_all
    have disc: "discovered evs = dict_keys (parse_vms o5)"
    proof -
      have "upgrade_cmd p \<noteq> getallvms_cmd" for p by (rule kind_neq) simp
      with rolled_back(8) quiesce_quiet(2) [OF rolled_back(2)] maintenancemode_quiet(2) [OF rolled_back(3)]
        maintenancemode_quiet(2) [OF rolled_back(5)] repower_quiet(2) [OF rolled_back(6)]
      show ?thesis by simp
    qed
    have r: "r = Inl (SystemExit 3) \<or> r = Inl IndexError"
      using repower_result [OF rolled_back(6)] rolled_back(7) by auto
    have first: "\<exists>out' tl. evr = Cmd (get_summary_cmd v) out' # tl"
      if "dict_keys (parse_vms o5) = v # vs" for v vs
      using repower_first [OF rolled_back(6) [unfolded that]] .
    have all: "get_summary_cmd v \<in> set (commands evr)"
      if "r = Inl (SystemExit 3)" "v \<in> set (dict_keys (parse_vms o5))" for v
    proof -
      from that(1) rolled_back(7) repower_result [OF rolled_back(6)]
      have "rr = Inr ()" by (cases rr) auto
      with rolled_back(6) have "repower_vms h (dict_keys (parse_vms o5)) wx = (Inr (), w', evr)"
        by simp
      from repower_complete [OF this parse_vms_keys(1) that(2)] show ?thesis
        by (auto intro: observations_command)
    qed
    from pp polls len timeout b rolled_back(4) repower_kinds [OF rolled_back(6)] r first all
    show ?thesis unfolding disc
      by (intro exI [of _ "upgrade_cmd (py_strip o1 @ ''/'' @ UPGRADE_FILENAME)"] exI [of _ resp]
          exI [of _ "prologue o1 o2 o3 o4 o5 @ evq @ evm"] exI [of _ polls]
          exI [of _ evr]) simp
  qed
  then show ?thesis unfolding tr res .
qed

lemma trace_success_split:
  "trace_success =
     (first_events ''1\<newline>'' @ forced_off_events ''1'' 1 @ enabled_soon_events)
       @ [Cmd (upgrade_cmd (''/vmfs/volumes/datastore1/upgrade/'' @ UPGRADE_FILENAME)) upgrade_ok_output]
     @ Cmd mm_disable_cmd [] # polls 5 ''Enabled\<newline>'' @ [Cmd reboot_cmd []]"
  by (simp add: trace_success_def never_disabled_events_def upgrade_event_def)

lemma never_disabled_reads:
  "''disabled'' \<notin> set (mm_reads (polls 5 ''Enabled\<newline>''))"
  "upgrade_succeeded upgrade_ok_output"
  by code_simp+

theorem mm_exit_timeout_not_fatal_witness:
  "\<exists>seen out'. polls 5 ''Enabled\<newline>'' @ [Cmd reboot_cmd []] = seen @ [Cmd reboot_cmd out']
     \<and> ''disabled'' \<notin> set (mm_reads seen) \<and> length (mm_reads seen) = 5
     \<and> result_of (main scripted) run_success = Inr ()"
proof -
  let ?front = "first_events ''1\<newline>'' @ forced_off_events ''1'' 1 @ enabled_soon_events"
  let ?up = "Cmd (upgrade_cmd (''/vmfs/volumes/datastore1/upgrade/'' @ UPGRADE_FILENAME)) upgrade_ok_output"
  let ?post = "polls 5 ''Enabled\<newline>'' @ [Cmd reboot_cmd []]"
  have "trace_of (main scripted) run_success = (?front @ [?up]) @ Cmd mm_disable_cmd [] # ?post"
    unfolding run_evals using trace_success_split by simp
  from mm_exit_timeout_not_fatal [OF this] obtain c resp pre0 seen rest where
    pre: "?front @ [?up] = pre0 @ [Cmd c resp]" and post: "?post = seen @ rest"
    and timeout: "''disabled'' \<notin> set (mm_reads seen) \<longrightarrow> length (mm_reads seen) = 5"
    and next_step: "if upgrade_succeeded resp
         then (\<exists>out'. rest = [Cmd reboot_cmd out']) \<and> result_of (main scripted) run_success = Inr ()
         else set (kinds rest) \<subseteq> {KSummary, KPowerOn}"
    by (auto split: if_splits)
  from pre have "resp = upgrade_ok_output" by simp
  with next_step never_disabled_reads(2) obtain out' where
    rest: "rest = [Cmd reboot_cmd out']" and r: "result_of (main scripted) run_success = Inr ()"
    by auto
  from post rest have "seen = polls 5 ''Enabled\<newline>''" by simp
  with timeout never_disabled_reads(1) post rest r show ?thesis by auto
qed

section \<open>Auto-start registrations\<close>

lemma split_before:
  assumes "a @ b = pre @ Cmd c out # post" and "kind_of c \<notin> set (kinds b)"
  shows "\<exists>post'. post = post' @ b \<and> a = pre @ Cmd c out # post'"
proof -
  from assms(1) consider us where "a = pre @ us" "us @ b = Cmd c out # post"
    | us where "a @ us = pre" "b = us @ Cmd c out # post"
    by (auto simp: append_eq_append_conv2)
  then show ?thesis
  proof cases
    case 1
    show ?thesis
    proof (cases us)
      case Nil
      with 1 have "Cmd c out \<in> set b" by auto
      from Cmd_kind [OF this] assms(2) show ?thesis by simp
    next
      case (Cons u us')
      with 1 show ?thesis by auto
    qed
  next
    case 2
    then have "Cmd c out \<in> set b" by auto
    from Cmd_kind [OF this] assms(2) show ?thesis by simp
  qed
qed

lemma no_kind_no_command: "kind_of c \<notin> set (kinds es) \<Longrightarrow> c \<notin> set (commands es)"
  by (auto dest: commands_kind)

text \<open>The registrations in a trace that has the loop over the VMs in it.\<close>

lemma registrations_in_run:
  assumes q: "quiesce_vms h vms 1 wq = (rq, wq', evq)" and d: "distinct vms"
    and dg: "\<forall>u \<in> set vms. py_isdigit u"
    and a: "set (kinds a) \<inter> {KAutostart, KSummary, KGuest, KShutdown, KPowerOff} = {}"
    and rest: "KAutostart \<notin> set (kinds rest)" and full: "rq = Inr () \<or> rest = []"
  shows "autostarts (a @ evq @ rest) = registrations (restore_set (a @ evq @ rest) vms) 1"
    and "v \<in> set vms \<Longrightarrow> a @ evq @ rest = pre @ Cmd (autostart_cmd v k) out # post \<Longrightarrow>
      get_guest_cmd v \<notin> set (commands pre) \<and> power_shutdown_cmd v \<notin> set (commands pre)
      \<and> power_off_cmd v \<notin> set (commands pre)
      \<and> (\<exists>out' post'. post = Cmd (get_guest_cmd v) out' # post')"
proof -
  have same: "first_state (a @ evq @ rest) u = first_state evq u" if "u \<in> set vms" for u
  proof -
    from a have "observations a u = []" by (auto intro: observations_none)
    then have 1: "first_state (a @ evq @ rest) u = first_state (evq @ rest) u"
      by (rule first_state_skip)
    from full show ?thesis
    proof
      assume "rq = Inr ()"
      with q have "quiesce_vms h vms 1 wq = (Inr (), wq', evq)" by simp
      from quiesce_queried [OF this that] have "observations evq u \<noteq> []" .
      with 1 show ?thesis by (simp add: first_state_keep)
    next
      assume "rest = []"
      with 1 show ?thesis by simp
    qed
  qed
  then have "restore_set (a @ evq @ rest) vms = restore_set evq vms"
    by (auto simp: restore_set_def intro: filter_cong)
  moreover from a rest have "autostarts a = []" "autostarts rest = []"
    by (auto intro: autostarts_none)
  ultimately show "autostarts (a @ evq @ rest) = registrations (restore_set (a @ evq @ rest) vms) 1"
    using quiesce_autostarts [OF q d] by simp
next
  assume v: "v \<in> set vms" and split: "a @ evq @ rest = pre @ Cmd (autostart_cmd v k) out # post"
  from a have ka: "kind_of (autostart_cmd v k) \<notin> set (kinds a)" by auto
  from split_after [OF split ka] obtain p where
    p: "pre = a @ p" "evq @ rest = p @ Cmd (autostart_cmd v k) out # post"
    by blast
  from rest have "kind_of (autostart_cmd v k) \<notin> set (kinds rest)" by simp
  from split_before [OF p(2) this] obtain post' where
    post: "post = post' @ rest" "evq = p @ Cmd (autostart_cmd v k) out # post'"
    by blast
  from quiesce_registered_first [OF q d dg v post(2)]
  have inner: "get_guest_cmd v \<notin> set (commands p)" "power_shutdown_cmd v \<notin> set (commands p)"
    "power_off_cmd v \<notin> set (commands p)" "\<exists>out' tl. post' = Cmd (get_guest_cmd v) out' # tl"
    by auto
  from a have "get_guest_cmd v \<notin> set (commands a)" "power_shutdown_cmd v \<notin> set (commands a)"
    "power_off_cmd v \<notin> set (commands a)"
    by (auto intro!: no_kind_no_command)
  with inner p(1) post(1)
  show "get_guest_cmd v \<notin> set (commands pre) \<and> power_shutdown_cmd v \<notin> set (commands pre)
      \<and> power_off_cmd v \<notin> set (commands pre)
      \<and> (\<exists>out' post'. post = Cmd (get_guest_cmd v) out' # post')"
    by auto
qed

lemma restore_set_Nil [simp]: "restore_set es [] = []"
  by (simp add: restore_set_def)

text \<open>
  C8. The auto-start registrations of a run are those of the VMs it first read as poweredOn
  (the restore set), in the order of discovery, with the priorities 1, 2, 3, ... in that
  order; and before the registration of such a VM the run has sent none of the commands of
  its quiesce (tools query, shutdown request, power-off), the first of which comes right
  after the registration.
\<close>

theorem autostart_priorities_follow_discovery:
  "autostarts (trace_of (main h) w)
     = registrations (restore_set (trace_of (main h) w) (discovered (trace_of (main h) w))) 1
   \<and> (\<forall>pre v k out post.
         v \<in> set (discovered (trace_of (main h) w))
         \<and> trace_of (main h) w = pre @ Cmd (autostart_cmd v k) out # post \<longrightarrow>
           get_guest_cmd v \<notin> set (commands pre) \<and> power_shutdown_cmd v \<notin> set (commands pre)
           \<and> power_off_cmd v \<notin> set (commands pre)
           \<and> (\<exists>out' post'. post = Cmd (get_guest_cmd v) out' # post'))"
proof -
  obtain r w' evs where run: "main h w = (r, w', evs)"
    by (cases "main h w") auto
  then have tr: "trace_of (main h) w = evs"
    by (simp add: trace_of_def)
  have pro: "set (kinds (prologue o1 o2 o3 o4 o5))
      \<inter> {KAutostart, KSummary, KGuest, KShutdown, KPowerOff} = {}" for o1 o2 o3 o4 o5
    by simp
  have up: "upgrade_cmd p \<noteq> getallvms_cmd" for p by (rule kind_neq) simp
  have both: "autostarts evs = registrations (restore_set evs (discovered evs)) 1
   \<and> (\<forall>pre v k out post.
         v \<in> set (discovered evs) \<and> evs = pre @ Cmd (autostart_cmd v k) out # post \<longrightarrow>
           get_guest_cmd v \<notin> set (commands pre) \<and> power_shutdown_cmd v \<notin> set (commands pre)
           \<and> power_off_cmd v \<notin> set (commands pre)
           \<and> (\<exists>out' post'. post = Cmd (get_guest_cmd v) out' # post'))"
    if q: "quiesce_vms h (dict_keys (parse_vms o5)) 1 wq = (rq, wq', evq)"
      and evs: "evs = prologue o1 o2 o3 o4 o5 @ evq @ rest"
      and rest: "KAutostart \<notin> set (kinds rest)" "discovered rest = []"
      and full: "rq = Inr () \<or> rest = []"
    for o1 o2 o3 o4 o5 wq rq wq' evq rest
  proof -
    have digits: "\<forall>u \<in> set (dict_keys (parse_vms o5)). py_isdigit u"
      using parse_vms_keys(2) by blast
    have disc: "discovered evs = dict_keys (parse_vms o5)"
      using evs rest(2) quiesce_quiet(2) [OF q] by simp
    note reg = registrations_in_run [OF q parse_vms_keys(1) digits pro rest(1) full]
    from reg(1) [of o1 o2 o3 o4 o5] reg(2) [of _ o1 o2 o3 o4 o5] show ?thesis
      unfolding evs disc [unfolded evs] by blast
  qed
  from run have "autostarts evs = registrations (restore_set evs (discovered evs)) 1
   \<and> (\<forall>pre v k out post.
         v \<in> set (discovered evs) \<and> evs = pre @ Cmd (autostart_cmd v k) out # post \<longrightarrow>
           get_guest_cmd v \<notin> set (commands pre) \<and> power_shutdown_cmd v \<notin> set (commands pre)
           \<and> power_off_cmd v \<notin> set (commands pre)
           \<and> (\<exists>out' post'. post = Cmd (get_guest_cmd v) out' # post'))"
  proof (cases rule: main_cases)
    case (not_found o1 o2)
    then have "kinds evs = [KPwd, KLs]" by simp
    then have "autostarts evs = []" "discovered evs = []"
      by (auto intro: autostarts_none discovered_none)
    then show ?thesis by simp
  next
    case (quiesce_raised o1 o2 o3 o4 o5 wq e evq)
    from quiesce_raised(4) have e: "evs = prologue o1 o2 o3 o4 o5 @ evq @ []" by simp
    show ?thesis by (rule both [OF quiesce_raised(2) e]) simp_all
  next
    case (mm_failed o1 o2 o3 o4 o5 wq wq' evq wm evm rr evr)
    have k: "KAutostart \<notin> set (kinds (evm @ evr))" "discovered (evm @ evr) = []"
      using maintenancemode_quiet(2,5) [OF mm_failed(3)] repower_kinds [OF mm_failed(4)]
        repower_quiet(2) [OF mm_failed(4)]
      by auto
    show ?thesis by (rule both [OF mm_failed(2) _ k]) (simp_all add: mm_failed(6))
  next
    case (rebooted o1 o2 o3 o4 o5 wq wq' evq wm evm resp wu b wx evx o6)
    let ?rest = "evm @ Cmd (upgrade_cmd (py_strip o1 @ ''/'' @ UPGRADE_FILENAME)) resp # evx
      @ [Cmd reboot_cmd o6]"
    have "reboot_cmd \<noteq> getallvms_cmd" by (rule kind_neq) simp
    then have k: "KAutostart \<notin> set (kinds ?rest)" "discovered ?rest = []"
      using maintenancemode_quiet(2,5) [OF rebooted(3)] maintenancemode_quiet(2,5) [OF rebooted(5)] up
      by auto
    show ?thesis by (rule both [OF rebooted(2) _ k]) (simp_all add: rebooted(7))
  next
    case (rolled_back o1 o2 o3 o4 o5 wq wq' evq wm evm resp wu b wx evx rr evr)
    let ?rest = "evm @ Cmd (upgrade_cmd (py_strip o1 @ ''/'' @ UPGRADE_FILENAME)) resp # evx @ evr"
    have k: "KAutostart \<notin> set (kinds ?rest)" "discovered ?rest = []"
      using maintenancemode_quiet(2,5) [OF rolled_back(3)] maintenancemode_quiet(2,5) [OF rolled_back(5)]
        repower_kinds [OF rolled_back(6)] repower_quiet(2) [OF rolled_back(6)] up
      by auto
    show ?thesis by (rule both [OF rolled_back(2) _ k]) (simp_all add: rolled_back(8))
  qed
  then show ?thesis unfolding tr .
qed

lemma trace_three_vms_facts:
  "discovered trace_three_vms = [''1'', ''2'', ''3'']"
  "restore_set trace_three_vms [''1'', ''2'', ''3''] = [''1'', ''3'']"
  by code_simp+

lemma trace_three_vms_split:
  "trace_three_vms =
     (first_events ''1\<newline>2\<newline>3\<newline>'' @ forced_off_events ''1'' 1
        @ [Cmd (get_summary_cmd ''2'') (summary_output ''poweredOff''),
           Cmd (get_summary_cmd ''3'') (summary_output ''poweredOn'')])
     @ Cmd (autostart_cmd ''3'' 2) []
     # ([Cmd (get_guest_cmd ''3'') (guest_output ''toolsNotInstalled''), Cmd (power_off_cmd ''3'') []]
        @ enabled_soon_events
        @ [upgrade_event upgrade_ok_output, Cmd mm_disable_cmd [], Cmd mm_get_cmd ''Disabled\<newline>'',
           Cmd reboot_cmd []])"
  by (simp add: trace_three_vms_def forced_off_events_def)

theorem autostart_priorities_follow_discovery_witness:
  "autostarts (trace_of (main scripted) run_three_vms) = [autostart_cmd ''1'' 1, autostart_cmd ''3'' 2]
   \<and> restore_set (trace_of (main scripted) run_three_vms)
         (discovered (trace_of (main scripted) run_three_vms)) = [''1'', ''3'']
   \<and> power_off_cmd ''3'' \<notin> set (commands
         (first_events ''1\<newline>2\<newline>3\<newline>'' @ forced_off_events ''1'' 1
            @ [Cmd (get_summary_cmd ''2'') (summary_output ''poweredOff''),
               Cmd (get_summary_cmd ''3'') (summary_output ''poweredOn'')]))"
proof -
  let ?T = "trace_of (main scripted) run_three_vms"
  have d: "discovered ?T = [''1'', ''2'', ''3'']"
    and rs: "restore_set ?T (discovered ?T) = [''1'', ''3'']"
    by (simp_all add: run_evals trace_three_vms_facts)
  have v: "''3'' \<in> set (discovered ?T)" using d by simp
  have split: "?T =
     (first_events ''1\<newline>2\<newline>3\<newline>'' @ forced_off_events ''1'' 1
        @ [Cmd (get_summary_cmd ''2'') (summary_output ''poweredOff''),
           Cmd (get_summary_cmd ''3'') (summary_output ''poweredOn'')])
     @ Cmd (autostart_cmd ''3'' 2) []
     # ([Cmd (get_guest_cmd ''3'') (guest_output ''toolsNotInstalled''), Cmd (power_off_cmd ''3'') []]
        @ enabled_soon_events
        @ [upgrade_event upgrade_ok_output, Cmd mm_disable_cmd [], Cmd mm_get_cmd ''Disabled\<newline>'',
           Cmd reboot_cmd []])"
    unfolding run_evals by (rule trace_three_vms_split)
  have "registrations [''1'', ''3''] 1 = [autostart_cmd ''1'' 1, autostart_cmd ''3'' 2]"
    by (simp add: registrations_Cons numeral_2_eq_2)
  with autostart_priorities_follow_discovery [of scripted run_three_vms] rs v split
  show ?thesis by metis
qed

section \<open>The package check\<close>

text \<open>What the newer script does when the package is not in the listing.\<close>

lemma missing_package_exits_1:
  assumes "\<not> py_in UPGRADE_FILENAME
     (fst (execute h (snd (execute h w pwd_cmd)) (ls_cmd (py_strip (fst (execute h w pwd_cmd))))))"
  shows "result_of (main h) w = Inl (SystemExit 1)"
    and "exit_status (result_of (main h) w) = 1"
    and "kinds (trace_of (main h) w) = [KPwd, KLs]"
  using assms
  by (simp_all add: main_def Let_def bnd_send raise_def result_of_def trace_of_def exit_status_def)

text \<open>
  C9 on the older script: with a listing that does not name the package, the run sends the
  two commands that find the listing and ends with exit status 0, where the newer script
  ends with exit status 1.
\<close>

theorem legacy_missing_package_exits_0:
  "result_of (us_main scripted) run_no_package = Inl (SystemExit 0)
   \<and> exit_status (result_of (us_main scripted) run_no_package) = 0
   \<and> commands (trace_of (us_main scripted) run_no_package)
       = [''pwd'', ''ls -l '' @ [CHR 0x27] @ ''/vmfs/volumes/datastore1/upgrade/'' @ [CHR 0x27]]
   \<and> exit_status (result_of (main scripted) run_no_package) = 1
   \<and> kinds (trace_of (main scripted) run_no_package) = [KPwd, KLs]"
  by code_simp

section \<open>Fact extraction\<close>

text \<open>The states read from an output that has no line with the key.\<close>

lemma tools_status_absent:
  "\<forall>line \<in> set ls. \<not> py_in ''toolsStatus'' line \<Longrightarrow> tools_status_of ls = Inr None"
  by (induction ls) auto

lemma power_state_absent:
  "\<forall>line \<in> set ls. \<not> py_in ''powerState'' line \<Longrightarrow> power_state_of ls = Inr ''unknown''"
  by (induction ls) auto


lemma py_split_not_Nil: "py_split sep s \<noteq> []"
  by (induction s) (auto split: list.splits)

lemma py_split_two:
  "sep \<in> set s \<Longrightarrow> \<exists>a b r. py_split sep s = a # b # r"
proof (induction s)
  case Nil
  then show ?case by simp
next
  case (Cons c cs)
  show ?case
  proof (cases "c = sep")
    case True
    then show ?thesis using py_split_not_Nil [of sep cs] by (cases "py_split sep cs") auto
  next
    case False
    with Cons.prems have "sep \<in> set cs" by simp
    from Cons.IH [OF this] obtain a b r where "py_split sep cs = a # b # r" by blast
    with False show ?thesis by simp
  qed
qed

lemma line_field_total:
  "CHR ''='' \<in> set line \<Longrightarrow> \<exists>s. line_field line = Inr s"
  using py_split_two [of "CHR ''=''" line] by (auto simp add: line_field_def)

lemma tools_status_total:
  "\<forall>line \<in> set ls. py_in ''toolsStatus'' line \<longrightarrow> CHR ''='' \<in> set line
   \<Longrightarrow> \<exists>s. tools_status_of ls = Inr s"
proof (induction ls)
  case Nil
  then show ?case by simp
next
  case (Cons l ls)
  show ?case
  proof (cases "py_in ''toolsStatus'' l")
    case True
    with Cons.prems have "CHR ''='' \<in> set l" by simp
    from line_field_total [OF this] True show ?thesis by auto
  next
    case False
    with Cons show ?thesis by simp
  qed
qed

lemma power_state_total:
  "\<forall>line \<in> set ls. py_in ''powerState'' line \<longrightarrow> CHR ''='' \<in> set line
   \<Longrightarrow> \<exists>s. power_state_of ls = Inr s"
proof (induction ls)
  case Nil
  then show ?case by simp
next
  case (Cons l ls)
  show ?case
  proof (cases "py_in ''powerState'' l")
    case True
    with Cons.prems have "CHR ''='' \<in> set l" by simp
    from line_field_total [OF this] True show ?thesis by auto
  next
    case False
    with Cons show ?thesis by simp
  qed
qed

text \<open>
  C7, as amended. When no line of the output has the key, \<^verbatim>\<open>check_vmware_tools_status\<close>
  returns \<open>None\<close> and \<^verbatim>\<open>getvmpowerstate_onbox\<close> returns unknown, without raising, and
  neither raises when every line that has the key also has an equals sign. With
  no tools status \<^verbatim>\<open>shutdownvm_onbox\<close> forces the power-off. A VM read as unknown is
  neither quiesced by the loop before the upgrade nor powered on by the rollback loop, and in
  the graceful path the reading ends the polls with success.
\<close>

theorem not_found_is_explicit:
  "((\<forall>line \<in> set (py_splitlines (fst (execute h w (get_guest_cmd v)))). \<not> py_in ''toolsStatus'' line)
      \<longrightarrow> result_of (check_vmware_tools_status h v) w = Inr None)
   \<and> ((\<forall>line \<in> set (py_split (CHR 0x0A) (fst (execute h w (get_summary_cmd v)))). \<not> py_in ''powerState'' line)
      \<longrightarrow> result_of (getvmpowerstate_onbox h v) w = Inr ''unknown'')
   \<and> ((\<forall>line \<in> set (py_splitlines (fst (execute h w (get_guest_cmd v)))).
         py_in ''toolsStatus'' line \<longrightarrow> CHR ''='' \<in> set line)
      \<longrightarrow> (\<exists>s. result_of (check_vmware_tools_status h v) w = Inr s))
   \<and> ((\<forall>line \<in> set (py_split (CHR 0x0A) (fst (execute h w (get_summary_cmd v)))).
         py_in ''powerState'' line \<longrightarrow> CHR ''='' \<in> set line)
      \<longrightarrow> (\<exists>s. result_of (getvmpowerstate_onbox h v) w = Inr s))
   \<and> (result_of (check_vmware_tools_status h v) w = Inr None
      \<longrightarrow> result_of (shutdownvm_onbox h v) w = Inr ()
        \<and> kinds (trace_of (shutdownvm_onbox h v) w) = [KGuest, KPowerOff])
   \<and> (result_of (getvmpowerstate_onbox h v) w = Inr ''unknown''
      \<longrightarrow> kinds (trace_of (quiesce_vms h [v] k) w) = [KSummary]
        \<and> kinds (trace_of (repower_vms h [v]) w) = [KSummary]
        \<and> result_of (wait_poweroff h v (Suc n)) w = Inr True
        \<and> kinds (trace_of (wait_poweroff h v (Suc n)) w) = [KSummary])"
proof (intro conjI impI)
  assume "\<forall>line \<in> set (py_splitlines (fst (execute h w (get_guest_cmd v)))). \<not> py_in ''toolsStatus'' line"
  from tools_status_absent [OF this] show "result_of (check_vmware_tools_status h v) w = Inr None"
    by (simp add: result_of_def check_tools_run read_tools_def)
next
  assume "\<forall>line \<in> set (py_split (CHR 0x0A) (fst (execute h w (get_summary_cmd v)))). \<not> py_in ''powerState'' line"
  from power_state_absent [OF this] show "result_of (getvmpowerstate_onbox h v) w = Inr ''unknown''"
    by (simp add: result_of_def getvmpowerstate_run read_power_def)
next
  assume "\<forall>line \<in> set (py_splitlines (fst (execute h w (get_guest_cmd v)))).
      py_in ''toolsStatus'' line \<longrightarrow> CHR ''='' \<in> set line"
  from tools_status_total [OF this] show "\<exists>s. result_of (check_vmware_tools_status h v) w = Inr s"
    by (simp add: result_of_def check_tools_run read_tools_def)
next
  assume "\<forall>line \<in> set (py_split (CHR 0x0A) (fst (execute h w (get_summary_cmd v)))).
      py_in ''powerState'' line \<longrightarrow> CHR ''='' \<in> set line"
  from power_state_total [OF this] show "\<exists>s. result_of (getvmpowerstate_onbox h v) w = Inr s"
    by (simp add: result_of_def getvmpowerstate_run read_power_def)
next
  assume "result_of (check_vmware_tools_status h v) w = Inr None"
  then have t: "check_vmware_tools_status h v w =
      (Inr None, snd (execute h w (get_guest_cmd v)),
       [Cmd (get_guest_cmd v) (fst (execute h w (get_guest_cmd v)))])"
    by (simp add: result_of_def check_tools_run)
  have "\<not> tools_usable None" by (simp add: tools_usable_def)
  from shutdownvm_forced [OF t this]
  show "result_of (shutdownvm_onbox h v) w = Inr ()"
    and "kinds (trace_of (shutdownvm_onbox h v) w) = [KGuest, KPowerOff]"
    by (simp_all add: result_of_def trace_of_def)
next
  assume "result_of (getvmpowerstate_onbox h v) w = Inr ''unknown''"
  then have u: "read_power (fst (execute h w (get_summary_cmd v))) = Inr ''unknown''"
    by (simp add: result_of_def getvmpowerstate_run)
  from u show "kinds (trace_of (quiesce_vms h [v] k) w) = [KSummary]"
    by (simp add: trace_of_def bnd_def getvmpowerstate_run ret_def)
  from u show "kinds (trace_of (repower_vms h [v]) w) = [KSummary]"
    by (simp add: trace_of_def bnd_def getvmpowerstate_run ret_def)
  from u show "result_of (wait_poweroff h v (Suc n)) w = Inr True"
    by (simp add: result_of_def bnd_def getvmpowerstate_run ret_def)
  from u show "kinds (trace_of (wait_poweroff h v (Suc n)) w) = [KSummary]"
    by (simp add: trace_of_def bnd_def getvmpowerstate_run ret_def)
qed

theorem unknown_counterexample:
  "result_of (getvmpowerstate_onbox scripted ''7'') [[]] = Inr ''unknown''
   \<and> shutdownvm_onbox scripted ''7'' lost_guest =
       (Inr (), [], [Cmd (get_guest_cmd ''7'') (guest_output ''toolsOk''),
                    Cmd (power_shutdown_cmd ''7'') [], Cmd (get_summary_cmd ''7'') []])
   \<and> result_of (getvmpowerstate_onbox scripted ''7'') [''powerState''] = Inl IndexError
   \<and> result_of (check_vmware_tools_status scripted ''7'') [''toolsStatus''] = Inl IndexError"
  by code_simp

theorem not_found_is_explicit_witness:
  "result_of (check_vmware_tools_status scripted ''7'') [[]] = Inr None
   \<and> result_of (getvmpowerstate_onbox scripted ''7'') [[]] = Inr ''unknown''
   \<and> kinds (trace_of (shutdownvm_onbox scripted ''7'') [[]]) = [KGuest, KPowerOff]
   \<and> kinds (trace_of (quiesce_vms scripted [''7''] 1) [[]]) = [KSummary]
   \<and> kinds (trace_of (repower_vms scripted [''7'']) [[]]) = [KSummary]
   \<and> result_of (wait_poweroff scripted ''7'' (Suc 9)) [[]] = Inr True"
proof -
  have a: "\<forall>line \<in> set (py_splitlines (fst (execute scripted [[]] (get_guest_cmd ''7'')))).
      \<not> py_in ''toolsStatus'' line"
    and b: "\<forall>line \<in> set (py_split (CHR 0x0A) (fst (execute scripted [[]] (get_summary_cmd ''7'')))).
      \<not> py_in ''powerState'' line"
    by (simp_all add: scripted_def py_splitlines_def)
  from not_found_is_explicit [of scripted "[[]]" "''7''" 1 9] a b show ?thesis
    by blast
qed

end
